(* ===== verification/Gateway_Prelude.thy ===== *)
theory Gateway_Prelude
  imports Complex_Main "HOL-Library.Signed_Division"
begin

text \<open>
  Shared vocabulary of the development: the outcome of a Go call that may panic, the
  64-bit \<open>int\<close> of Go with its wrap-around, clock readings, and the collections of
  simplification rules that the component theories fill.

  Go's \<open>int\<close>, \<open>int64\<close> and \<open>time.Duration\<close> are 64-bit two's complement on the
  platforms the gateway is built for; the model carries them as \<^typ>\<open>int\<close> and applies
  \<open>wrap64\<close> wherever the source's arithmetic can leave the range.
\<close>

named_theorems f64_simps \<open>evaluation of float64 operations on finite operands\<close>
named_theorems frame_simps \<open>fields and keys an operation leaves alone\<close>
named_theorems inv_intros \<open>operations keep their component's invariant\<close>

section \<open>Outcomes of calls that may panic\<close>

datatype 'a outcome = Ret 'a | Panic string

fun bind_outcome :: "'a outcome \<Rightarrow> ('a \<Rightarrow> 'b outcome) \<Rightarrow> 'b outcome" where
  "bind_outcome (Ret x) f = f x"
| "bind_outcome (Panic msg) f = Panic msg"

lemma bind_outcome_Ret_iff:
  "bind_outcome m f = Ret y \<longleftrightarrow> (\<exists>x. m = Ret x \<and> f x = Ret y)"
  by (cases m) auto

lemma bind_outcome_Panic_iff:
  "bind_outcome m f = Panic e \<longleftrightarrow> m = Panic e \<or> (\<exists>x. m = Ret x \<and> f x = Panic e)"
  by (cases m) auto

section \<open>64-bit integers\<close>

definition wrap64 :: "int \<Rightarrow> int" where
  "wrap64 i = (i + 2 ^ 63) mod 2 ^ 64 - 2 ^ 63"

definition int64 :: "int \<Rightarrow> bool" where
  "int64 i \<longleftrightarrow> - (2 ^ 63) \<le> i \<and> i < 2 ^ 63"

lemma wrap64_int64 [simp]: "int64 (wrap64 i)"
  by (auto simp: int64_def wrap64_def)

lemma wrap64_id [simp]: "int64 i \<Longrightarrow> wrap64 i = i"
  by (simp add: int64_def wrap64_def)

section \<open>Clock readings\<close>

text \<open>
  A clock reading is a number of nanoseconds on the process clock. An operation that calls
  \<open>time.Now()\<close> several times takes the readings as a \<open>clock\<close>: \<open>clk i\<close> is the
  value its \<open>i\<close>-th call returns. Between two calls other goroutines may run, so nothing
  is assumed of the readings but what a lemma says.
\<close>

type_synonym time = int
type_synonym duration = int
type_synonym clock = "nat \<Rightarrow> time"

abbreviation (input) millisecond :: duration where "millisecond \<equiv> 1000000"
abbreviation (input) second :: duration where "second \<equiv> 1000000000"
abbreviation (input) minute :: duration where "minute \<equiv> 60000000000"

text \<open>\<open>Time.Sub\<close> saturates at the bounds of \<open>Duration\<close>.\<close>

definition time_sub :: "time \<Rightarrow> time \<Rightarrow> duration" where
  "time_sub t u = max (- (2 ^ 63)) (min (2 ^ 63 - 1) (t - u))"

lemma time_sub_int64 [simp]: "int64 (time_sub t u)"
  by (auto simp: time_sub_def int64_def)

lemma time_sub_pos_iff: "0 < time_sub t u \<longleftrightarrow> u < t"
  by (auto simp: time_sub_def)

lemma time_sub_le: "u \<le> t \<Longrightarrow> time_sub t u \<le> t - u"
  by (auto simp: time_sub_def)

lemma time_sub_mono: "t \<le> t' \<Longrightarrow> time_sub t u \<le> time_sub t' u"
  by (auto simp: time_sub_def)

lemma time_sub_exact: "int64 (t - u) \<Longrightarrow> time_sub t u = t - u"
  by (auto simp: time_sub_def int64_def)


lemma time_sub_gt_iff: "0 \<le> c \<Longrightarrow> c < 2 ^ 63 - 1 \<Longrightarrow> c < time_sub t u \<longleftrightarrow> c < t - u"
  by (auto simp: time_sub_def)

text \<open>The zero \<open>time.Time\<close> is the first of January of year 1; readings count from 1970.\<close>

definition zero_time :: time where
  "zero_time = - 62135596800 * second"

section \<open>Errors\<close>

text \<open>
  The error values the gateway compares or wraps. \<open>ErrorString\<close> is any other error of
  \<open>errors.New\<close> or of a callee, \<open>WrapError\<close> is \<open>fmt.Errorf("msg: %w", err)\<close>.
\<close>

datatype go_error =
    ErrNotFound | ErrInvalidAPIKey | ErrNoRows | DeadlineExceeded | Canceled | ErrNotSupported
  | ErrorString string
  | WrapError string go_error

fun err_msg :: "go_error \<Rightarrow> string" where
  "err_msg ErrNotFound = ''client not found''"
| "err_msg ErrInvalidAPIKey = ''invalid api key''"
| "err_msg ErrNoRows = ''sql: no rows in result set''"
| "err_msg DeadlineExceeded = ''context deadline exceeded''"
| "err_msg Canceled = ''context canceled''"
| "err_msg ErrNotSupported = ''feature not supported''"
| "err_msg (ErrorString m) = m"
| "err_msg (WrapError m e) = m @ '': '' @ err_msg e"

fun errors_is :: "go_error \<Rightarrow> go_error \<Rightarrow> bool" where
  "errors_is (WrapError m e) target = (WrapError m e = target \<or> errors_is e target)"
| "errors_is e target = (e = target)"

end
