(* ===== verification/Float64.thy ===== *)
theory Float64
  imports Gateway_Prelude "HOL-Library.Log_Nat"
begin

text \<open>
  Go's \<open>float64\<close> and Lua's number: IEEE 754 binary64 with round-to-nearest-even. A finite
  value is carried as the rational number it denotes, an operation computes the exact
  rational result and rounds it once. Overflow to an infinity, NaN and the subnormal range
  are modelled; the sign of zero is not (no code under \<open>src/\<close> divides by a zero that can
  be negative or prints one).
\<close>

section \<open>Rounding a rational to 53 significant bits\<close>

definition ilog2 :: "rat \<Rightarrow> int" where
  "ilog2 x = (case quotient_of x of (p, q) \<Rightarrow>
     let k = bitlen p - bitlen q in if 2 powi k \<le> x then k else k - 1)"

definition rne :: "rat \<Rightarrow> int" where
  "rne x = (let f = \<lfloor>x\<rfloor>; d = x - of_int f in
     if d < 1 / 2 then f else if 1 / 2 < d then f + 1 else if even f then f else f + 1)"

definition ulp_exp :: "rat \<Rightarrow> int" where
  "ulp_exp x = max (ilog2 \<bar>x\<bar> - 52) (- 1074)"

definition rnd :: "rat \<Rightarrow> rat" where
  "rnd x = (if x = 0 then 0 else of_int (rne (x / 2 powi ulp_exp x)) * 2 powi ulp_exp x)"

subsection \<open>Powers of two\<close>

lemma powi2_pos [simp]: "0 < (2::rat) powi k"
  by (simp add: zero_less_power_int)

lemma powi2_nz [simp]: "(2::rat) powi k \<noteq> 0"
  using powi2_pos [of k] by linarith

lemma powi2_not_le_0 [simp]: "\<not> (2::rat) powi k \<le> 0"
  using powi2_pos [of k] by linarith

lemma powi2_le_iff [simp]: "(2::rat) powi j \<le> 2 powi k \<longleftrightarrow> j \<le> k"
  by (metis linorder_not_le one_less_numeral_iff power_int_increasing
      power_int_strict_increasing order_less_imp_le semiring_norm(76))

lemma powi2_less_iff [simp]: "(2::rat) powi j < 2 powi k \<longleftrightarrow> j < k"
  by (meson linorder_not_le powi2_le_iff)

lemma powi2_add: "(2::rat) powi (j + k) = 2 powi j * 2 powi k"
  by (rule power_int_add) simp

lemma powi2_diff: "(2::rat) powi (j - k) = 2 powi j / 2 powi k"
  by (rule power_int_diff) simp

lemma powi2_of_int: "0 \<le> k \<Longrightarrow> (2::rat) powi k = of_int (2 ^ nat k)"
  by (simp add: power_int_nonneg_exp)

lemma ilog2_bounds:
  assumes "0 < x"
  shows "2 powi ilog2 x \<le> x \<and> x < 2 powi (ilog2 x + 1)"
proof -
  obtain p q where pq: "quotient_of x = (p, q)" by force
  have q: "0 < q" using pq by (rule quotient_of_denom_pos)
  have x: "x = of_int p / of_int q" using pq by (rule quotient_of_div)
  have p: "0 < p" using assms q by (simp add: x zero_less_divide_iff)
  have bp: "1 \<le> bitlen p" "1 \<le> bitlen q"
    using p q by (auto simp: bitlen_alt_def)
  have up: "(of_int p :: rat) < 2 powi bitlen p" "2 powi (bitlen p - 1) \<le> (of_int p :: rat)"
    using bitlen_bounds [OF p] bp
    by (simp_all add: powi2_of_int bitlen_nonneg del: of_int_power)
  have uq: "(of_int q :: rat) < 2 powi bitlen q" "2 powi (bitlen q - 1) \<le> (of_int q :: rat)"
    using bitlen_bounds [OF q] bp
    by (simp_all add: powi2_of_int bitlen_nonneg del: of_int_power)
  define k where "k = bitlen p - bitlen q"
  have "x < 2 powi bitlen p / 2 powi (bitlen q - 1)"
    unfolding x using up uq p q
    by (intro frac_less) auto
  then have hi: "x < 2 powi (k + 1)"
    by (simp add: k_def powi2_diff powi2_add field_simps)
  have "2 powi (bitlen p - 1) / 2 powi bitlen q \<le> x"
    unfolding x using up uq p q
    by (intro frac_le) auto
  then have lo: "2 powi (k - 1) \<le> x"
    by (simp add: k_def powi2_diff powi2_add field_simps)
  have "ilog2 x = (if 2 powi k \<le> x then k else k - 1)"
    by (simp add: ilog2_def pq k_def Let_def)
  then show ?thesis using hi lo by auto
qed


lemma ilog2_unique: "2 powi k \<le> x \<Longrightarrow> x < 2 powi (k + 1) \<Longrightarrow> ilog2 x = k"
proof -
  assume lo: "2 powi k \<le> x" and hi: "x < 2 powi (k + 1)"
  have "0 < x" using lo powi2_pos [of k] by linarith
  note b = ilog2_bounds [OF this]
  have "(2::rat) powi k < 2 powi (ilog2 x + 1)" using lo b by linarith
  moreover have "(2::rat) powi ilog2 x < 2 powi (k + 1)" using hi b by linarith
  ultimately show ?thesis by simp
qed

lemma ilog2_mono: "0 < x \<Longrightarrow> x \<le> y \<Longrightarrow> ilog2 x \<le> ilog2 y"
proof -
  assume "0 < x" "x \<le> y"
  then have "(2::rat) powi ilog2 x < 2 powi (ilog2 y + 1)"
    using ilog2_bounds [of x] ilog2_bounds [of y] by linarith
  then show ?thesis by simp
qed

subsection \<open>Round half to even\<close>

lemma rne_of_int [simp]: "rne (of_int n) = n"
  by (simp add: rne_def)

lemma rne_floor_or: "rne x = \<lfloor>x\<rfloor> \<or> rne x = \<lfloor>x\<rfloor> + 1"
  by (auto simp: rne_def Let_def)

lemma rne_error: "\<bar>of_int (rne x) - x\<bar> \<le> 1 / 2"
proof -
  obtain f where f: "\<lfloor>x\<rfloor> = f" by simp
  then have "of_int f \<le> x" and "x < of_int f + 1" using floor_correct [of x] by auto
  then show ?thesis unfolding rne_def Let_def f by (auto simp: abs_le_iff)
qed

lemma rne_mono:
  assumes "x \<le> y"
  shows "rne x \<le> rne y"
proof (cases "\<lfloor>x\<rfloor> = \<lfloor>y\<rfloor>")
  case True
  with assms show ?thesis by (auto simp: rne_def Let_def)
next
  case False
  moreover have "\<lfloor>x\<rfloor> \<le> \<lfloor>y\<rfloor>" using assms by (rule floor_mono)
  ultimately show ?thesis using rne_floor_or [of x] rne_floor_or [of y] by linarith
qed

lemma rne_minus: "rne (- x) = - rne x"
proof (cases "x \<in> \<int>")
  case True
  then obtain n where x: "x = of_int n" by (auto elim: Ints_cases)
  show ?thesis using rne_of_int [of "- n"] by (simp add: x)
next
  case False
  then have "\<lfloor>- x\<rfloor> = - \<lfloor>x\<rfloor> - 1"
    by (simp add: floor_minus ceiling_altdef)
      (metis Ints_of_int)
  then show ?thesis by (auto simp: rne_def Let_def)
qed

lemma rne_le_of_int: "x \<le> of_int n \<Longrightarrow> rne x \<le> n"
  using rne_mono [of x "of_int n"] by simp

lemma rne_ge_of_int: "of_int n \<le> x \<Longrightarrow> n \<le> rne x"
  using rne_mono [of "of_int n" x] by simp


subsection \<open>The rounded value\<close>

lemma rnd_zero [simp]: "rnd 0 = 0"
  by (simp add: rnd_def)

lemma ulp_exp_minus [simp]: "ulp_exp (- x) = ulp_exp x"
  by (simp add: ulp_exp_def)

lemma rnd_minus: "rnd (- x) = - rnd x"
  by (simp add: rnd_def rne_minus flip: minus_divide_left)

text \<open>Every number with at most 53 significant bits in range is representable.\<close>

lemma rnd_dyadic_less:
  assumes m: "\<bar>m\<bar> < 2 ^ 53" and e: "- 1074 \<le> e"
  shows "rnd (of_int m * 2 powi e) = of_int m * 2 powi e"
proof (cases "m = 0")
  case False
  define y :: rat where "y = of_int m * 2 powi e"
  have y0: "0 < \<bar>y\<bar>" using False by (simp add: y_def)
  have "\<bar>y\<bar> = of_int \<bar>m\<bar> * 2 powi e" by (simp add: y_def abs_mult)
  also have "\<dots> < of_int (2 ^ 53) * 2 powi e"
    using m by (intro mult_strict_right_mono) (simp_all only: of_int_less_iff powi2_pos)
  also have "\<dots> = 2 powi (53 + e)" by (simp add: powi2_add)
  finally have "(2::rat) powi ilog2 \<bar>y\<bar> < 2 powi (53 + e)"
    using ilog2_bounds [OF y0] by linarith
  then have ue: "ulp_exp y \<le> e" using e by (simp add: ulp_exp_def)
  define d where "d = e - ulp_exp y"
  have "y / 2 powi ulp_exp y = of_int m * 2 powi d"
    by (simp add: y_def d_def powi2_diff)
  also have "\<dots> = of_int (m * 2 ^ nat d)"
    using ue by (simp add: d_def powi2_of_int)
  finally have "rnd y = of_int (m * 2 ^ nat d) * 2 powi ulp_exp y"
    using y0 by (simp only: rnd_def rne_of_int) simp
  also have "\<dots> = of_int m * (2 powi d * 2 powi ulp_exp y)"
    using ue by (simp add: d_def powi2_of_int)
  also have "2 powi d * 2 powi ulp_exp y = (2::rat) powi e"
    by (simp add: d_def flip: powi2_add)
  finally show ?thesis by (simp add: y_def)
qed simp

lemma rnd_dyadic:
  assumes "\<bar>m\<bar> \<le> 2 ^ 53" and e: "- 1074 \<le> e"
  shows "rnd (of_int m * 2 powi e) = of_int m * 2 powi e"
proof (cases "\<bar>m\<bar> = 2 ^ 53")
  case True
  define s :: int where "s = (if m < 0 then - 1 else 1)"
  have m: "m = (s * 2 ^ 52) * 2" using True by (auto simp: s_def)
  have "of_int m * 2 powi e = (of_int (s * 2 ^ 52) * 2 powi (e + 1) :: rat)"
    unfolding m by (simp add: powi2_add)
  moreover have "\<bar>s * 2 ^ 52\<bar> < 2 ^ 53" by (simp add: s_def)
  ultimately show ?thesis using rnd_dyadic_less [of "s * 2 ^ 52" "e + 1"] e by simp
next
  case False
  with assms show ?thesis by (intro rnd_dyadic_less) auto
qed

lemma rnd_of_int [simp]: "\<bar>n\<bar> \<le> 2 ^ 53 \<Longrightarrow> rnd (of_int n) = of_int n"
  using rnd_dyadic [of n 0] by simp

text \<open>A result has at most 53 significant bits, so rounding again changes nothing.\<close>

lemma rnd_form:
  obtains m e where "rnd x = of_int m * 2 powi e" "\<bar>m\<bar> \<le> 2 ^ 53" "- 1074 \<le> e"
    "x \<noteq> 0 \<longrightarrow> e = ulp_exp x"
proof (cases "x = 0")
  case True
  show ?thesis by (rule that [of 0 0]) (simp_all add: True)
next
  case False
  define e where "e = ulp_exp x"
  define m where "m = rne (x / 2 powi e)"
  have "\<bar>x\<bar> < 2 powi (ilog2 \<bar>x\<bar> + 1)" using False ilog2_bounds [of "\<bar>x\<bar>"] by simp
  also have "\<dots> \<le> 2 powi (53 + e)" by (simp add: e_def ulp_exp_def)
  finally have b: "\<bar>x\<bar> \<le> of_int (2 ^ 53) * 2 powi e" by (simp add: powi2_add)
  have "x / 2 powi e \<le> of_int (2 ^ 53)" and "of_int (- (2 ^ 53)) \<le> x / 2 powi e"
    using b by (simp_all add: divide_le_eq le_divide_eq abs_le_iff)
  then have "m \<le> 2 ^ 53 \<and> - (2 ^ 53) \<le> m"
    unfolding m_def by (intro conjI rne_le_of_int rne_ge_of_int)
  then have "\<bar>m\<bar> \<le> 2 ^ 53" by (auto simp: abs_le_iff)
  then show ?thesis
    by (intro that [of m e]) (simp_all add: False rnd_def m_def e_def ulp_exp_def)
qed

lemma rnd_idem [simp]: "rnd (rnd x) = rnd x"
  by (rule rnd_form [of x]) (simp add: rnd_dyadic)


lemma rnd_nonneg: "0 \<le> x \<Longrightarrow> 0 \<le> rnd x"
  using rne_ge_of_int [of 0 "x / 2 powi ulp_exp x"] by (simp add: rnd_def)

lemma rnd_mono_pos:
  assumes x: "0 < x" and xy: "x \<le> y"
  shows "rnd x \<le> rnd y"
proof (cases "ulp_exp x = ulp_exp y")
  case True
  have "rne (x / 2 powi ulp_exp y) \<le> rne (y / 2 powi ulp_exp y)"
    using xy by (intro rne_mono divide_right_mono) (auto intro: less_imp_le)
  then show ?thesis using x xy by (simp add: rnd_def True)
next
  case False
  define L where "L = ilog2 y"
  have y: "0 < y" using x xy by simp
  have xyL: "ilog2 x \<le> L" using ilog2_mono [OF x xy] by (simp add: L_def)
  with False x y have ey: "ulp_exp y = L - 52" and ex: "ulp_exp x < L - 52" and lt: "ilog2 x < L"
    by (auto simp: ulp_exp_def L_def max_def split: if_splits)
  have "of_int (2 ^ 52) * 2 powi (L - 52) = (2::rat) powi L"
    using powi2_add [of 52 "L - 52"] by simp
  moreover have "2 powi L \<le> y" using ilog2_bounds [OF y] by (simp add: L_def)
  ultimately have "of_int (2 ^ 52) \<le> y / 2 powi ulp_exp y"
    by (simp add: ey le_divide_eq)
  then have "2 ^ 52 \<le> rne (y / 2 powi ulp_exp y)" by (rule rne_ge_of_int)
  then have "of_int (2 ^ 52) \<le> (of_int (rne (y / 2 powi ulp_exp y)) :: rat)"
    by (simp only: of_int_le_iff)
  then have "of_int (2 ^ 52) * 2 powi ulp_exp y \<le> rnd y"
    using y by (simp add: rnd_def mult_right_mono)
  then have ly: "2 powi L \<le> rnd y"
    using \<open>of_int (2 ^ 52) * 2 powi (L - 52) = 2 powi L\<close> by (simp only: ey)
  define d where "d = L - ulp_exp x"
  have d: "0 \<le> d" using ex by (simp add: d_def)
  have eq: "of_int (2 ^ nat d) * 2 powi ulp_exp x = (2::rat) powi L"
    using d powi2_add [of d "ulp_exp x"] by (simp add: powi2_of_int d_def)
  have "x \<le> 2 powi L"
    using ilog2_bounds [OF x] lt powi2_le_iff [of "ilog2 x + 1" L] by linarith
  then have "x / 2 powi ulp_exp x \<le> of_int (2 ^ nat d)"
    using eq by (simp only: divide_le_eq powi2_pos if_True)
  then have "rne (x / 2 powi ulp_exp x) \<le> 2 ^ nat d" by (rule rne_le_of_int)
  then have "of_int (rne (x / 2 powi ulp_exp x)) * 2 powi ulp_exp x
      \<le> (of_int (2 ^ nat d) * 2 powi ulp_exp x :: rat)"
    by (intro mult_right_mono) (simp_all only: of_int_le_iff less_imp_le [OF powi2_pos])
  then have "rnd x \<le> 2 powi L" using x by (simp only: rnd_def eq) simp
  with ly show ?thesis by linarith
qed

lemma rnd_mono: "x \<le> y \<Longrightarrow> rnd x \<le> rnd y"
proof (cases "0 < x")
  case False
  assume xy: "x \<le> y"
  show ?thesis
  proof (cases "y < 0")
    case True
    then have "rnd (- y) \<le> rnd (- x)" using xy by (intro rnd_mono_pos) auto
    then show ?thesis by (simp add: rnd_minus)
  next
    case ny: False
    have "rnd x \<le> 0" using False rnd_nonneg [of "- x"] by (simp add: rnd_minus)
    also have "0 \<le> rnd y" using ny by (simp add: rnd_nonneg)
    finally show ?thesis .
  qed
qed (rule rnd_mono_pos)

text \<open>The relative error of one rounding; the additive term covers the subnormal range.\<close>

lemma rnd_error: "\<bar>rnd x - x\<bar> \<le> \<bar>x\<bar> / 2 ^ 53 + 2 powi (- 1075)"
proof (cases "x = 0")
  case False
  define e where "e = ulp_exp x"
  have "rnd x - x = (of_int (rne (x / 2 powi e)) - x / 2 powi e) * 2 powi e"
    using False by (simp add: rnd_def e_def left_diff_distrib)
  then have "\<bar>rnd x - x\<bar> \<le> 1 / 2 * 2 powi e"
    using rne_error [of "x / 2 powi e"] by (simp add: abs_mult mult_right_mono)
  also have "\<dots> = 2 powi (e - 1)" by (simp add: powi2_diff)
  finally have err: "\<bar>rnd x - x\<bar> \<le> 2 powi (e - 1)" .
  show ?thesis
  proof (cases "e = - 1074")
    case True
    then have "\<bar>rnd x - x\<bar> \<le> 2 powi (- 1075)" using err by simp
    moreover have "0 \<le> \<bar>x\<bar> / 2 ^ 53" by simp
    ultimately show ?thesis by linarith
  next
    case False
    then have "e = ilog2 \<bar>x\<bar> - 52" by (auto simp: e_def ulp_exp_def)
    then have "2 powi (e - 1) = 2 powi ilog2 \<bar>x\<bar> / (2 ^ 53 :: rat)"
      using powi2_diff [of "ilog2 \<bar>x\<bar>" 53] by simp
    also have "\<dots> \<le> \<bar>x\<bar> / 2 ^ 53"
      using ilog2_bounds [of "\<bar>x\<bar>"] \<open>x \<noteq> 0\<close> by (intro divide_right_mono) auto
    finally show ?thesis using err powi2_pos [of "- 1075"] by linarith
  qed
qed simp


lemma rnd_upper: "0 \<le> x \<Longrightarrow> rnd x \<le> x + x / 2 ^ 53 + 2 powi (- 1075)"
  using rnd_error [of x] by linarith

lemma rnd_sub_int_exact:
  assumes rep: "rnd x = x" and n: "0 \<le> n" "of_int n \<le> x" and x: "x \<le> 2 ^ 53"
  shows "rnd (x - of_int n) = x - of_int n"
proof -
  obtain m e where xf: "x = of_int m * 2 powi e" "\<bar>m\<bar> \<le> 2 ^ 53" "- 1074 \<le> e" "e \<le> 0"
  proof (cases "x = 2 ^ 53 \<or> x = 0")
    case True
    then show ?thesis by (auto intro: that [of "2 ^ 53" 0] that [of 0 0])
  next
    case False
    have x0: "0 < x" using n False order_trans [of 0 "of_int n" x] by auto
    obtain m e where me: "rnd x = of_int m * 2 powi e" "\<bar>m\<bar> \<le> 2 ^ 53" "- 1074 \<le> e"
      "x \<noteq> 0 \<longrightarrow> e = ulp_exp x" by (rule rnd_form [of x])
    have "(2::rat) powi ilog2 x < 2 powi 53"
      using ilog2_bounds [OF x0] x False by simp
    then have "ilog2 x < 53" by (simp only: powi2_less_iff)
    then have "e \<le> 0" using me(4) x0 by (simp add: ulp_exp_def)
    then show ?thesis using me rep by (intro that [of m e]) auto
  qed
  define n' where "n' = n * 2 ^ nat (- e)"
  have "of_int n = (of_int n' * 2 powi e :: rat)"
    using xf(4) powi2_add [of "- e" e] by (simp add: n'_def powi2_of_int)
  then have eq: "x - of_int n = of_int (m - n') * 2 powi e"
    by (simp add: xf(1) left_diff_distrib)
  have "0 \<le> n'" using n by (simp add: n'_def)
  moreover have "0 \<le> of_int (m - n') * (2::rat) powi e" using n eq by simp
  then have "0 \<le> m - n'"
    by (simp add: zero_le_mult_iff)
  ultimately have "\<bar>m - n'\<bar> \<le> 2 ^ 53" using xf(2) by (simp add: abs_le_iff)
  then show ?thesis unfolding eq using xf(3) by (rule rnd_dyadic)
qed

section \<open>Rounding as an interface\<close>

text \<open>
  What the token arithmetic of the limiters needs of a rounding mode. The bounds on a
  clamped refill are proved from it once, for the Go bucket and for the Lua script.
\<close>

locale rounding =
  fixes rd :: "rat \<Rightarrow> rat"
  assumes rd_mono: "x \<le> y \<Longrightarrow> rd x \<le> rd y"
    and rd_idem: "rd (rd x) = rd x"
    and rd_zero: "rd 0 = 0"
begin

lemma rd_nonneg: "0 \<le> x \<Longrightarrow> 0 \<le> rd x"
  using rd_mono [of 0 x] by (simp add: rd_zero)

lemma rd_le_rep: "rd c = c \<Longrightarrow> x \<le> c \<Longrightarrow> rd x \<le> c"
  using rd_mono [of x c] by simp

lemma rd_ge_rep: "rd c = c \<Longrightarrow> c \<le> x \<Longrightarrow> c \<le> rd x"
  using rd_mono [of c x] by simp

lemma clamp_rep: "rd c = c \<Longrightarrow> rd (min (rd x) c) = min (rd x) c"
  by (simp add: min_def rd_idem)

lemma refill_grows: "rd t = t \<Longrightarrow> 0 \<le> a \<Longrightarrow> t \<le> c \<Longrightarrow> t \<le> min (rd (t + a)) c"
  using rd_ge_rep [of t "t + a"] by simp

end

interpretation f64: rounding rnd
  by unfold_locales (simp_all add: rnd_mono)

section \<open>The values and operations of float64\<close>

datatype f64 = Fin rat | PInf | NInf | NaN

definition f64_of_rat :: "rat \<Rightarrow> f64" where
  "f64_of_rat x = (let r = rnd x in
     if 2 ^ 1024 \<le> r then PInf else if r \<le> - (2 ^ 1024) then NInf else Fin r)"

definition f64_of_int :: "int \<Rightarrow> f64" where
  "f64_of_int n = f64_of_rat (of_int n)"

fun f64_neg :: "f64 \<Rightarrow> f64" where
  "f64_neg (Fin a) = Fin (- a)"
| "f64_neg PInf = NInf"
| "f64_neg NInf = PInf"
| "f64_neg NaN = NaN"

fun f64_add :: "f64 \<Rightarrow> f64 \<Rightarrow> f64" where
  "f64_add NaN y = NaN"
| "f64_add x NaN = NaN"
| "f64_add (Fin a) (Fin b) = f64_of_rat (a + b)"
| "f64_add PInf NInf = NaN"
| "f64_add NInf PInf = NaN"
| "f64_add PInf y = PInf"
| "f64_add NInf y = NInf"
| "f64_add (Fin a) PInf = PInf"
| "f64_add (Fin a) NInf = NInf"

definition f64_sub :: "f64 \<Rightarrow> f64 \<Rightarrow> f64" where
  "f64_sub x y = f64_add x (f64_neg y)"

fun f64_sgn :: "f64 \<Rightarrow> rat" where
  "f64_sgn (Fin a) = sgn a"
| "f64_sgn PInf = 1"
| "f64_sgn NInf = - 1"
| "f64_sgn NaN = 0"

definition signed_inf :: "rat \<Rightarrow> f64" where
  "signed_inf s = (if s = 0 then NaN else if 0 < s then PInf else NInf)"

fun f64_mul :: "f64 \<Rightarrow> f64 \<Rightarrow> f64" where
  "f64_mul NaN y = NaN"
| "f64_mul x NaN = NaN"
| "f64_mul (Fin a) (Fin b) = f64_of_rat (a * b)"
| "f64_mul x y = signed_inf (f64_sgn x * f64_sgn y)"

fun f64_div :: "f64 \<Rightarrow> f64 \<Rightarrow> f64" where
  "f64_div NaN y = NaN"
| "f64_div x NaN = NaN"
| "f64_div (Fin a) (Fin b) = (if b = 0 then signed_inf (sgn a) else f64_of_rat (a / b))"
| "f64_div (Fin a) y = Fin 0"
| "f64_div x (Fin b) = signed_inf (f64_sgn x * (if b = 0 then 1 else sgn b))"
| "f64_div x y = NaN"

fun f64_le :: "f64 \<Rightarrow> f64 \<Rightarrow> bool" where
  "f64_le (Fin a) (Fin b) = (a \<le> b)"
| "f64_le NaN y = False"
| "f64_le x NaN = False"
| "f64_le NInf y = True"
| "f64_le x PInf = True"
| "f64_le x y = False"

fun f64_lt :: "f64 \<Rightarrow> f64 \<Rightarrow> bool" where
  "f64_lt (Fin a) (Fin b) = (a < b)"
| "f64_lt NaN y = False"
| "f64_lt x NaN = False"
| "f64_lt NInf y = (y \<noteq> NInf)"
| "f64_lt x PInf = (x \<noteq> PInf)"
| "f64_lt x y = False"

text \<open>
  Go's conversion \<open>int(f)\<close> truncates towards zero. Out of range the language leaves the
  result to the implementation; the model takes the value amd64 delivers.
\<close>

definition rat_trunc :: "rat \<Rightarrow> int" where
  "rat_trunc x = (if 0 \<le> x then \<lfloor>x\<rfloor> else \<lceil>x\<rceil>)"

fun f64_to_int :: "f64 \<Rightarrow> int" where
  "f64_to_int (Fin x) = (if int64 (rat_trunc x) then rat_trunc x else - (2 ^ 63))"
| "f64_to_int _ = - (2 ^ 63)"


subsection \<open>Operations on finite operands\<close>

fun f64_rep :: "f64 \<Rightarrow> bool" where
  "f64_rep (Fin x) = (rnd x = x \<and> \<bar>x\<bar> < 2 ^ 1024)"
| "f64_rep _ = True"

lemma f64_of_rat_rep: "f64_rep (f64_of_rat x)"
  by (auto simp: f64_of_rat_def Let_def abs_less_iff)

lemma rnd_pow2: "rnd (2 ^ k) = 2 ^ k"
  using rnd_dyadic [of 1 "int k"] by simp

lemma rnd_abs_le_pow2: "\<bar>x\<bar> \<le> 2 ^ k \<Longrightarrow> \<bar>rnd x\<bar> \<le> 2 ^ k"
  using f64.rd_le_rep [OF rnd_pow2, of x k] f64.rd_le_rep [OF rnd_pow2, of "- x" k]
  by (simp add: rnd_minus abs_le_iff)

lemma f64_of_rat_small:
  assumes "\<bar>x\<bar> \<le> 2 ^ 1023"
  shows "f64_of_rat x = Fin (rnd x)"
proof -
  have "\<bar>rnd x\<bar> \<le> 2 ^ 1023" using assms by (rule rnd_abs_le_pow2)
  moreover have "(2::rat) ^ 1023 < 2 ^ 1024" by (rule power_strict_increasing) auto
  ultimately have "\<bar>rnd x\<bar> < 2 ^ 1024" by linarith
  then show ?thesis by (auto simp: f64_of_rat_def Let_def abs_less_iff)
qed

lemma pow2_le_1023: "\<bar>x\<bar> \<le> 2 ^ k \<Longrightarrow> k \<le> 1023 \<Longrightarrow> \<bar>x\<bar> \<le> (2::rat) ^ 1023"
  by (meson one_le_numeral order_trans power_increasing)

lemma f64_of_int_int64: "\<bar>n\<bar> \<le> 2 ^ 63 \<Longrightarrow> f64_of_int n = Fin (rnd (of_int n))"
proof -
  assume "\<bar>n\<bar> \<le> 2 ^ 63"
  then have "\<bar>of_int n :: rat\<bar> \<le> of_int (2 ^ 63)" by (simp only: flip: of_int_abs)
  then have "\<bar>of_int n :: rat\<bar> \<le> 2 ^ 63" by simp
  then have "\<bar>of_int n :: rat\<bar> \<le> 2 ^ 1023" by (rule pow2_le_1023) simp
  then show ?thesis by (simp add: f64_of_int_def f64_of_rat_small)
qed

lemma f64_of_int_exact [f64_simps]: "\<bar>n\<bar> \<le> 2 ^ 53 \<Longrightarrow> f64_of_int n = Fin (of_int n)"
  by (simp add: f64_of_int_int64)

lemma f64_add_small [f64_simps]:
  "\<bar>a + b\<bar> \<le> 2 ^ 1023 \<Longrightarrow> f64_add (Fin a) (Fin b) = Fin (rnd (a + b))"
  by (simp add: f64_of_rat_small)

lemma f64_sub_small [f64_simps]:
  "\<bar>a - b\<bar> \<le> 2 ^ 1023 \<Longrightarrow> f64_sub (Fin a) (Fin b) = Fin (rnd (a - b))"
  by (simp add: f64_sub_def f64_of_rat_small)

text \<open>Evaluation on integer-valued operands, for concrete runs.\<close>

lemma rnd_numeral [f64_simps]: "(numeral k :: int) \<le> 2 ^ 53 \<Longrightarrow> rnd (numeral k) = numeral k"
  using rnd_of_int [of "numeral k"] by simp

lemma rnd_one [simp]: "rnd 1 = 1"
  using rnd_of_int [of 1] by simp

lemma f64_of_rat_int: "\<bar>n\<bar> \<le> 2 ^ 53 \<Longrightarrow> f64_of_rat (of_int n) = Fin (of_int n)"
  using f64_of_int_exact [of n] by (simp add: f64_of_int_def)

lemma f64_of_rat_numeral [f64_simps]:
  "(numeral k :: int) \<le> 2 ^ 53 \<Longrightarrow> f64_of_rat (numeral k) = Fin (numeral k)"
  using f64_of_rat_int [of "numeral k"] by simp

lemma f64_of_rat_0_1 [simp]: "f64_of_rat 0 = Fin 0" "f64_of_rat 1 = Fin 1"
  using f64_of_rat_int [of 0] f64_of_rat_int [of 1] by simp_all

lemma f64_of_int_0_1 [simp]: "f64_of_int 0 = Fin 0" "f64_of_int 1 = Fin 1"
  by (simp_all add: f64_of_int_def)

lemma f64_of_int_numeral [f64_simps]:
  "(numeral k :: int) \<le> 2 ^ 53 \<Longrightarrow> f64_of_int (numeral k) = Fin (numeral k)"
  by (simp add: f64_of_int_def f64_of_rat_numeral)

section \<open>Duration.Seconds\<close>

text \<open>
  \<open>Duration.Seconds\<close> of the Go library: whole seconds and the remaining nanoseconds are
  converted separately, \<open>float64(sec) + float64(nsec)/1e9\<close>; the integer division truncates.
\<close>

definition duration_seconds :: "duration \<Rightarrow> f64" where
  "duration_seconds d =
     f64_add (f64_of_int (d sdiv second)) (f64_div (f64_of_int (d smod second)) (Fin 1000000000))"

definition secs :: "duration \<Rightarrow> rat" where
  "secs d = rnd (of_int (d div second) + rnd (of_int (d mod second) / 1000000000))"

lemma duration_seconds_pos:
  assumes "0 \<le> d" "int64 d"
  shows "duration_seconds d = Fin (secs d)"
proof -
  have sd: "d sdiv second = d div second" "d smod second = d mod second"
    using assms by (simp_all add: signed_divide_int_def signed_modulo_int_def sgn_if
        minus_div_mult_eq_mod abs_if)
  have q: "0 \<le> d div second" "d div second \<le> 2 ^ 53"
    using assms by (auto simp: int64_def pos_imp_zdiv_nonneg_iff)
  have r: "0 \<le> d mod second" "d mod second < second" by simp_all
  define y :: rat where "y = of_int (d mod second) / 1000000000"
  have "(of_int (d mod second) :: rat) \<le> of_int second"
    using r by (simp only: of_int_le_iff)
  then have y: "0 \<le> y" "y \<le> 2 ^ 0" using r by (simp_all add: y_def)
  have ry: "\<bar>rnd y\<bar> \<le> 2 ^ 0" using y by (intro rnd_abs_le_pow2) simp
  have "f64_of_rat y = Fin (rnd y)"
    using y by (intro f64_of_rat_small pow2_le_1023 [of _ 0]) auto
  then have 1: "f64_div (Fin (of_int (d mod second))) (Fin 1000000000) = Fin (rnd y)"
    by (simp add: y_def)
  have "(of_int (d div second) :: rat) \<le> of_int (2 ^ 53)" using q by (simp only: of_int_le_iff)
  then have "\<bar>of_int (d div second) + rnd y\<bar> \<le> 2 ^ 54" using q ry by (simp add: abs_le_iff)
  then have "f64_of_rat (of_int (d div second) + rnd y) = Fin (rnd (of_int (d div second) + rnd y))"
    by (intro f64_of_rat_small pow2_le_1023 [of _ 54]) auto
  then show ?thesis
    using q r 1 by (simp add: duration_seconds_def sd f64_of_int_exact secs_def y_def)
qed


lemma secs_mono:
  assumes "0 \<le> d" "d \<le> d'"
  shows "secs d \<le> secs d'"
proof (cases "d div second = d' div second")
  case True
  moreover have "d mod second \<le> d' mod second"
    using True assms by (metis add_le_cancel_left mult_div_mod_eq)
  ultimately show ?thesis by (auto simp: secs_def intro!: rnd_mono divide_right_mono)
next
  case False
  moreover have "d div second \<le> d' div second" using assms by (intro zdiv_mono1) auto
  ultimately have "d div second + 1 \<le> d' div second" by simp
  then have q: "(of_int (d div second) :: rat) + 1 \<le> of_int (d' div second)"
    by (metis of_int_1 of_int_add of_int_le_iff)
  have "of_int (d mod second) \<le> (of_int second :: rat)"
    by (simp add: less_imp_le)
  then have "rnd (of_int (d mod second) / 1000000000) \<le> 1"
    using f64.rd_le_rep [of 1] rnd_of_int [of 1] by simp
  moreover have "0 \<le> rnd (of_int (d' mod second) / 1000000000)" by (intro rnd_nonneg) simp
  ultimately show ?thesis using q by (auto simp: secs_def intro!: rnd_mono)
qed

lemma secs_nonneg: "0 \<le> d \<Longrightarrow> 0 \<le> secs d"
  by (simp add: secs_def rnd_nonneg pos_imp_zdiv_nonneg_iff)

lemma secs_whole: "0 \<le> s \<Longrightarrow> s \<le> 2 ^ 53 \<Longrightarrow> secs (s * second) = of_int s"
  by (simp add: secs_def)

lemma secs_upper:
  assumes "0 < d"
  shows "secs d \<le> of_int d / 1000000000 * (1 + 1 / 2 ^ 51)"
proof -
  define q y :: rat where "q = of_int (d div second)" and "y = of_int (d mod second) / 1000000000"
  define x :: rat where "x = of_int d / 1000000000"
  define t :: rat where "t = 2 powi (- 1075)"
  have x: "x = q + y"
  proof -
    have "(of_int d :: rat) = of_int (d div second * second + d mod second)" by simp
    then show ?thesis unfolding of_int_add of_int_mult
      by (simp add: x_def q_def y_def field_simps)
  qed
  have q0: "0 \<le> q" and y0: "0 \<le> y" using assms by (simp_all add: q_def y_def pos_imp_zdiv_nonneg_iff)
  have x1: "1 / 1000000000 \<le> x" using assms by (simp add: x_def divide_right_mono)
  have t: "0 < t" "t \<le> 1 / 2 ^ 90"
    using powi2_le_iff [of "- 1075" "- 90"] by (simp_all add: t_def power_int_minus_divide)
  have 1: "rnd y \<le> y + y / 2 ^ 53 + t"
    using rnd_upper [OF y0] by (simp add: t_def)
  have z0: "0 \<le> q + rnd y" using q0 y0 by (simp add: rnd_nonneg)
  have 2: "secs d \<le> (q + rnd y) + (q + rnd y) / 2 ^ 53 + t"
    using rnd_upper [OF z0] by (simp add: t_def secs_def q_def y_def)
  have "q + rnd y \<le> x + x / 2 ^ 53 + t" using 1 q0 by (simp add: x field_simps)
  then have "secs d \<le> (x + x / 2 ^ 53 + t) + (x + x / 2 ^ 53 + t) / 2 ^ 53 + t"
    using 2 by (simp add: field_simps)
  also have "\<dots> \<le> x * (1 + 1 / 2 ^ 51)" using x1 t by (simp add: field_simps)
  finally show ?thesis by (simp add: x_def)
qed

lemma secs_pos: "0 < d \<Longrightarrow> 0 < secs d"
proof -
  assume "0 < d"
  then have "secs 1 \<le> secs d" by (intro secs_mono) auto
  moreover have "0 < secs 1" by code_simp
  ultimately show ?thesis by linarith
qed

end
