(* ===== verification/Token_Bucket.thy ===== *)
theory Token_Bucket
  imports Float64
begin

text \<open>
  The token bucket of \<open>internal/limiter/token_bucket.go\<close>. The record is the Go struct
  without its mutex: every method holds the mutex from its first to its last access, so a
  method is one atomic step on the record. A method that reads the clock takes the reading
  as its argument \<open>now\<close>.

  The lemmas give the type invariant of the bucket (\<open>tb_inv\<close>), the refill as a function
  of the elapsed time, and the bound on what a sequence of calls can be granted, with the
  rounding of every float64 operation accounted for.
\<close>

section \<open>The bucket and its operations\<close>

record token_bucket =
  capacity :: int
  refillRate :: f64
  tokens :: f64
  lastRefill :: time

definition NewTokenBucket :: "time \<Rightarrow> int \<Rightarrow> f64 \<Rightarrow> token_bucket outcome" where
  "NewTokenBucket now cap rate =
     (if cap < 1 then Panic ''limiter: capacity must be >= 1''
      else if f64_le rate (Fin 0) then Panic ''limiter: refillRate must be > 0''
      else Ret \<lparr>capacity = cap, refillRate = rate, tokens = f64_of_int cap, lastRefill = now\<rparr>)"

definition TokenBucket_refill :: "time \<Rightarrow> token_bucket \<Rightarrow> token_bucket" where
  "TokenBucket_refill now tb =
     (let elapsed = time_sub now (lastRefill tb) in
      if elapsed \<le> 0 then tb
      else
        let added = f64_mul (refillRate tb) (duration_seconds elapsed);
            t = f64_add (tokens tb) added;
            t' = (if f64_lt (f64_of_int (capacity tb)) t then f64_of_int (capacity tb) else t)
        in tb\<lparr>tokens := t', lastRefill := now\<rparr>)"

definition TokenBucket_AllowN :: "time \<Rightarrow> int \<Rightarrow> token_bucket \<Rightarrow> bool \<times> token_bucket" where
  "TokenBucket_AllowN now n tb =
     (if n \<le> 0 then (True, tb)
      else
        let tb' = TokenBucket_refill now tb in
        if f64_le (f64_of_int n) (tokens tb')
        then (True, tb'\<lparr>tokens := f64_sub (tokens tb') (f64_of_int n)\<rparr>)
        else (False, tb'))"

definition TokenBucket_Allow :: "time \<Rightarrow> token_bucket \<Rightarrow> bool \<times> token_bucket" where
  "TokenBucket_Allow now tb = TokenBucket_AllowN now 1 tb"

definition TokenBucket_Tokens :: "time \<Rightarrow> token_bucket \<Rightarrow> int \<times> token_bucket" where
  "TokenBucket_Tokens now tb =
     (let tb' = TokenBucket_refill now tb in (f64_to_int (tokens tb'), tb'))"

definition TokenBucket_Reset :: "time \<Rightarrow> token_bucket \<Rightarrow> token_bucket" where
  "TokenBucket_Reset now tb = tb\<lparr>tokens := f64_of_int (capacity tb), lastRefill := now\<rparr>"

section \<open>The invariant\<close>

fun f64_val :: "f64 \<Rightarrow> rat" where
  "f64_val (Fin x) = x"
| "f64_val _ = 0"

fun finite_rate :: "f64 \<Rightarrow> bool" where
  "finite_rate (Fin r) = (0 < r \<and> rnd r = r)"
| "finite_rate _ = False"

fun tokens_ok :: "int \<Rightarrow> f64 \<Rightarrow> bool" where
  "tokens_ok cap (Fin t) = (0 \<le> t \<and> t \<le> rnd (of_int cap) \<and> rnd t = t)"
| "tokens_ok cap _ = False"

definition tb_inv :: "token_bucket \<Rightarrow> bool" where
  "tb_inv tb \<longleftrightarrow> 1 \<le> capacity tb \<and> int64 (capacity tb) \<and> finite_rate (refillRate tb)
     \<and> tokens_ok (capacity tb) (tokens tb)"

abbreviation rate_of :: "token_bucket \<Rightarrow> rat" where "rate_of tb \<equiv> f64_val (refillRate tb)"
abbreviation level :: "token_bucket \<Rightarrow> rat" where "level tb \<equiv> f64_val (tokens tb)"
abbreviation cap_of :: "token_bucket \<Rightarrow> rat" where "cap_of tb \<equiv> rnd (of_int (capacity tb))"

lemma tb_invD:
  assumes "tb_inv tb"
  shows "1 \<le> capacity tb" "int64 (capacity tb)" "f64_of_int (capacity tb) = Fin (cap_of tb)"
    "Fin (rate_of tb) = refillRate tb" "0 < rate_of tb" "rnd (rate_of tb) = rate_of tb"
    "Fin (level tb) = tokens tb" "0 \<le> level tb" "level tb \<le> cap_of tb" "rnd (level tb) = level tb"
    "cap_of tb \<le> 2 ^ 63" "1 \<le> cap_of tb"
proof -
  show c: "1 \<le> capacity tb" "int64 (capacity tb)" using assms by (simp_all add: tb_inv_def)
  show "f64_of_int (capacity tb) = Fin (cap_of tb)"
    using c by (intro f64_of_int_int64) (auto simp: int64_def)
  show "Fin (rate_of tb) = refillRate tb" "0 < rate_of tb" "rnd (rate_of tb) = rate_of tb"
    using assms by (cases "refillRate tb"; simp add: tb_inv_def)+
  show "Fin (level tb) = tokens tb" "0 \<le> level tb" "level tb \<le> cap_of tb" "rnd (level tb) = level tb"
    using assms by (cases "tokens tb"; simp add: tb_inv_def)+
  have "(of_int (capacity tb) :: rat) \<le> of_int (2 ^ 63)"
    using c by (simp only: of_int_le_iff) (simp add: int64_def)
  then show "cap_of tb \<le> 2 ^ 63" by (intro f64.rd_le_rep rnd_pow2) simp
  have "(1::rat) \<le> of_int (capacity tb)" using c by simp
  then show "1 \<le> cap_of tb" using f64.rd_ge_rep [of 1] rnd_of_int [of 1] by simp
qed

text \<open>The refill of a valid bucket, as arithmetic on rationals.\<close>

definition refilled :: "time \<Rightarrow> token_bucket \<Rightarrow> rat" where
  "refilled now tb =
     (if now \<le> lastRefill tb then level tb
      else min (rnd (level tb + rnd (rate_of tb * secs (time_sub now (lastRefill tb))))) (cap_of tb))"

lemma f64_of_rat_nonneg:
  "0 \<le> x \<Longrightarrow> f64_of_rat x = (if 2 ^ 1024 \<le> rnd x then PInf else Fin (rnd x))"
  using rnd_nonneg [of x] zero_less_power [of "2::rat" 1024]
  by (auto simp: f64_of_rat_def Let_def simp del: zero_less_power)

lemma pow_1024: "(2::rat) ^ 63 < 2 ^ 1024"
  by (rule power_strict_increasing) auto


text \<open>The sum and the clamp of a refill, infinities included.\<close>

lemma clamped_add:
  assumes t: "0 \<le> t" and c: "c \<le> 2 ^ 63" and x: "0 \<le> x"
  shows "(if f64_lt (Fin c) (f64_add (Fin t) (f64_of_rat x)) then Fin c
      else f64_add (Fin t) (f64_of_rat x)) = Fin (min (rnd (t + rnd x)) c)"
proof (cases "2 ^ 1024 \<le> rnd x")
  case True
  then have "2 ^ 1024 \<le> rnd (t + rnd x)" using t by (intro f64.rd_ge_rep rnd_pow2) simp
  then show ?thesis using True c pow_1024 by (simp add: f64_of_rat_nonneg [OF x])
next
  case False
  have "0 \<le> t + rnd x" using t x by (simp add: rnd_nonneg)
  then show ?thesis
    using False c pow_1024 by (auto simp: f64_of_rat_nonneg [OF x] f64_of_rat_nonneg min_def)
qed

lemma refill_valid:
  assumes inv: "tb_inv tb"
  shows "TokenBucket_refill now tb =
    tb\<lparr>tokens := Fin (refilled now tb), lastRefill := max now (lastRefill tb)\<rparr>"
proof (cases "now \<le> lastRefill tb")
  case True
  then have "time_sub now (lastRefill tb) \<le> 0" using time_sub_pos_iff [of now] by (meson not_le)
  then show ?thesis
    using True tb_invD(7) [OF inv] by (simp add: TokenBucket_refill_def refilled_def max_def)
next
  case False
  define d where "d = time_sub now (lastRefill tb)"
  note i = tb_invD [OF inv]
  obtain r t where rt: "refillRate tb = Fin r" "tokens tb = Fin t" using i(4,7) by metis
  have d: "0 < d" using False by (simp add: d_def time_sub_pos_iff)
  then have ds: "duration_seconds d = Fin (secs d)" by (intro duration_seconds_pos) (auto simp: d_def)
  have "0 \<le> r * secs d" using i(5) d by (simp add: rt secs_nonneg)
  then have eq: "(if f64_lt (Fin (cap_of tb)) (f64_add (Fin t) (f64_of_rat (r * secs d)))
      then Fin (cap_of tb) else f64_add (Fin t) (f64_of_rat (r * secs d)))
    = Fin (min (rnd (t + rnd (r * secs d))) (cap_of tb))"
    using i(8,11) by (intro clamped_add) (simp_all add: rt)
  have "TokenBucket_refill now tb =
      tb\<lparr>tokens := Fin (min (rnd (t + rnd (r * secs d))) (cap_of tb)), lastRefill := now\<rparr>"
    using d unfolding TokenBucket_refill_def Let_def d_def [symmetric] rt i(3) ds f64_mul.simps eq
    by simp
  then show ?thesis using False by (simp add: refilled_def d_def rt max_def)
qed

lemma refilled_bounds:
  assumes inv: "tb_inv tb"
  shows "level tb \<le> refilled now tb" "refilled now tb \<le> cap_of tb"
    "rnd (refilled now tb) = refilled now tb" "0 \<le> refilled now tb"
proof -
  note i = tb_invD [OF inv]
  have a: "0 \<le> rnd (rate_of tb * secs (time_sub now (lastRefill tb)))" if "\<not> now \<le> lastRefill tb"
    using i that time_sub_pos_iff [of now "lastRefill tb"]
    by (intro rnd_nonneg) (simp add: secs_nonneg)
  show l: "level tb \<le> refilled now tb"
    using i a f64.refill_grows [of "level tb" _ "cap_of tb"] by (simp add: refilled_def)
  show "refilled now tb \<le> cap_of tb" using i by (simp add: refilled_def)
  show "rnd (refilled now tb) = refilled now tb"
    using i f64.clamp_rep [of "cap_of tb"] by (simp add: refilled_def)
  show "0 \<le> refilled now tb" using l i by linarith
qed

text \<open>Every operation keeps the invariant; the constructor establishes it.\<close>

lemma NewTokenBucket_inv:
  assumes "NewTokenBucket now cap rate = Ret tb" "int64 cap" "f64_rep rate" "rate \<noteq> NaN" "rate \<noteq> PInf"
  shows "tb_inv tb"
proof -
  have c: "1 \<le> cap" "f64_of_int cap = Fin (rnd (of_int cap))"
    using assms f64_of_int_int64 [of cap] by (auto simp: NewTokenBucket_def int64_def split: if_splits)
  then have "(0::rat) \<le> rnd (of_int cap)" by (intro rnd_nonneg) simp
  then show ?thesis
    using assms c by (cases rate) (auto simp: NewTokenBucket_def tb_inv_def split: if_splits)
qed

lemma refill_inv [inv_intros]: "tb_inv tb \<Longrightarrow> tb_inv (TokenBucket_refill now tb)"
  using refilled_bounds [of tb now] by (simp add: refill_valid) (simp add: tb_inv_def)

lemma AllowN_inv [inv_intros]:
  assumes inv: "tb_inv tb" and n: "int64 n"
  shows "tb_inv (snd (TokenBucket_AllowN now n tb))"
proof (cases "0 < n")
  case True
  define r where "r = refilled now tb"
  note b = refilled_bounds [OF inv, of now, folded r_def]
  have fn: "f64_of_int n = Fin (rnd (of_int n))"
    using n True by (intro f64_of_int_int64) (auto simp: int64_def)
  have n0: "0 \<le> rnd (of_int n)" using True by (intro rnd_nonneg) simp
  have "tokens_ok (capacity tb) (f64_sub (Fin r) (Fin (rnd (of_int n))))" if le: "rnd (of_int n) \<le> r"
  proof -
    have "\<bar>r - rnd (of_int n)\<bar> \<le> 2 ^ 63" using le b n0 tb_invD(11) [OF inv] by simp
    then have "f64_sub (Fin r) (Fin (rnd (of_int n))) = Fin (rnd (r - rnd (of_int n)))"
      by (intro f64_sub_small pow2_le_1023 [of _ 63]) auto
    moreover have "rnd (r - rnd (of_int n)) \<le> cap_of tb"
      using b n0 by (intro f64.rd_le_rep) auto
    ultimately show ?thesis using le by (simp add: rnd_nonneg)
  qed
  moreover have "tokens_ok (capacity tb) (Fin r)" using b by simp
  moreover have "1 \<le> capacity tb" "int64 (capacity tb)" "finite_rate (refillRate tb)"
    using inv by (simp_all add: tb_inv_def)
  ultimately show ?thesis
    using True unfolding TokenBucket_AllowN_def Let_def fn refill_valid [OF inv] r_def [symmetric]
    by (simp add: tb_inv_def del: tokens_ok.simps)
qed (use inv in \<open>simp add: TokenBucket_AllowN_def\<close>)

lemma Tokens_inv [inv_intros]: "tb_inv tb \<Longrightarrow> tb_inv (snd (TokenBucket_Tokens now tb))"
  by (simp add: TokenBucket_Tokens_def Let_def refill_inv)

lemma Reset_inv [inv_intros]: "tb_inv tb \<Longrightarrow> tb_inv (TokenBucket_Reset now tb)"
  using tb_invD(3,12) [of tb] by (simp add: TokenBucket_Reset_def tb_inv_def)


section \<open>What a call grants\<close>

text \<open>
  Buckets whose capacity has an exact float64, with room to spare: below \<open>2 ^ 53\<close> the
  comparison with the requested count and the subtraction of it are exact.
\<close>

definition exact_capacity :: "token_bucket \<Rightarrow> bool" where
  "exact_capacity tb \<longleftrightarrow> capacity tb < 2 ^ 53"

lemma cap_of_exact: "tb_inv tb \<Longrightarrow> exact_capacity tb \<Longrightarrow> cap_of tb = of_int (capacity tb)"
  using tb_invD(1) [of tb] by (intro rnd_of_int) (simp add: exact_capacity_def)

lemma rnd_int_le_iff:
  assumes "0 < n" "t < 2 ^ 53"
  shows "rnd (of_int n) \<le> t \<longleftrightarrow> of_int n \<le> t"
proof (cases "n \<le> 2 ^ 53")
  case True
  with assms show ?thesis by simp
next
  case False
  then have "of_int (2 ^ 53) \<le> (of_int n :: rat)" by (simp only: of_int_le_iff)
  then have n53: "2 ^ 53 \<le> (of_int n :: rat)" by simp
  then have "2 ^ 53 \<le> rnd (of_int n)" by (rule f64.rd_ge_rep [OF rnd_pow2])
  with n53 assms show ?thesis by simp
qed

lemma refilled_less:
  assumes "tb_inv tb" "exact_capacity tb"
  shows "refilled now tb < 2 ^ 53"
proof -
  have "(of_int (capacity tb) :: rat) < of_int (2 ^ 53)"
    using assms(2) by (simp only: of_int_less_iff exact_capacity_def)
  then show ?thesis using refilled_bounds(2) [OF assms(1), of now] cap_of_exact [OF assms] by simp
qed

lemma AllowN_valid:
  assumes inv: "tb_inv tb" and ex: "exact_capacity tb" and n: "0 < n" "int64 n"
  shows "TokenBucket_AllowN now n tb =
    (of_int n \<le> refilled now tb,
     tb\<lparr>tokens := Fin (refilled now tb - (if of_int n \<le> refilled now tb then of_int n else 0)),
        lastRefill := max now (lastRefill tb)\<rparr>)"
proof -
  define r where "r = refilled now tb"
  note b = refilled_bounds [OF inv, of now, folded r_def]
  have r53: "r < 2 ^ 53" unfolding r_def using inv ex by (rule refilled_less)
  have fn: "f64_of_int n = Fin (rnd (of_int n))"
    using n by (intro f64_of_int_int64) (auto simp: int64_def)
  have "f64_sub (Fin r) (Fin (rnd (of_int n))) = Fin (r - of_int n)" if le: "of_int n \<le> r"
  proof -
    have "of_int n < (of_int (2 ^ 53) :: rat)" using le r53 by simp
    then have "n < 2 ^ 53" by (simp only: of_int_less_iff)
    then have "rnd (of_int n) = of_int n" using n by simp
    moreover have "\<bar>r - of_int n\<bar> \<le> 2 ^ 53" using le r53 n by (simp add: abs_le_iff)
    then have "\<bar>r - of_int n\<bar> \<le> 2 ^ 1023" by (rule pow2_le_1023) simp
    ultimately show ?thesis
      using rnd_sub_int_exact [OF b(3) _ le] n r53 by (simp add: f64_sub_small)
  qed
  then show ?thesis
    using n rnd_int_le_iff [OF n(1) r53]
    by (simp add: TokenBucket_AllowN_def Let_def fn refill_valid [OF inv] flip: r_def)
qed

lemma rat_trunc_floor: "0 \<le> x \<Longrightarrow> rat_trunc x = \<lfloor>x\<rfloor>"
  by (simp add: rat_trunc_def)

lemma Tokens_valid:
  assumes inv: "tb_inv tb" and ex: "exact_capacity tb"
  shows "fst (TokenBucket_Tokens now tb) = \<lfloor>refilled now tb\<rfloor>"
proof -
  have "0 \<le> \<lfloor>refilled now tb\<rfloor>" and "\<lfloor>refilled now tb\<rfloor> < 2 ^ 53"
    using refilled_bounds [OF inv, of now] refilled_less [OF inv ex, of now]
    by (simp_all add: floor_less_iff)
  then show ?thesis using refilled_bounds [OF inv, of now]
    by (simp add: TokenBucket_Tokens_def Let_def refill_valid [OF inv] rat_trunc_floor int64_def)
qed

section \<open>The admission bound\<close>

text \<open>The tokens a rate yields over an interval, in exact arithmetic.\<close>

definition exact_gain :: "rat \<Rightarrow> time \<Rightarrow> time \<Rightarrow> rat" where
  "exact_gain r t0 t1 = r * (of_int (t1 - t0) / 1000000000)"

lemma exact_gain_trans: "exact_gain r t0 t1 + exact_gain r t1 t2 = exact_gain r t0 t2"
  by (simp add: exact_gain_def field_simps)

lemma exact_gain_refl [simp]: "exact_gain r t t = 0"
  by (simp add: exact_gain_def)

lemma exact_gain_mono: "0 \<le> r \<Longrightarrow> t1 \<le> t2 \<Longrightarrow> exact_gain r t0 t1 \<le> exact_gain r t0 t2"
  by (simp add: exact_gain_def mult_left_mono divide_right_mono)

text \<open>The clamp bounds the rounding error of the sum by the capacity.\<close>

lemma clamp_upper:
  assumes "0 \<le> t" "0 \<le> a" "1 \<le> c"
  shows "min (rnd (t + a)) c \<le> t + a + c / 2 ^ 53 + 2 powi (- 1075)"
proof (cases "c \<le> t + a")
  case True
  have "0 < c / 2 ^ 53 + 2 powi (- 1075)" using assms(3) by (intro add_pos_pos) auto
  then show ?thesis using True by (simp add: min_def)
next
  case False
  have "rnd (t + a) \<le> t + a + (t + a) / 2 ^ 53 + 2 powi (- 1075)"
    using assms by (intro rnd_upper) simp
  also have "(t + a) / 2 ^ 53 \<le> c / 2 ^ 53" using False by (simp add: divide_right_mono)
  finally show ?thesis by simp
qed

text \<open>
  One refill adds at most the exact product of rate and elapsed time, up to the relative
  error of the float64 operations and one rounding of the sum.
\<close>

lemma refilled_upper:
  assumes inv: "tb_inv tb"
  shows "refilled now tb \<le> level tb
    + exact_gain (rate_of tb) (lastRefill tb) (max now (lastRefill tb)) * (1 + 1 / 2 ^ 50)
    + cap_of tb / 2 ^ 52"
proof (cases "now \<le> lastRefill tb")
  case True
  then show ?thesis using tb_invD(12) [OF inv] by (simp add: refilled_def max_def)
next
  case False
  note i = tb_invD [OF inv]
  define d x a t where "d = time_sub now (lastRefill tb)"
    and "x = (of_int (now - lastRefill tb) / 1000000000 :: rat)"
    and "a = rnd (rate_of tb * secs d)" and "t = (2::rat) powi (- 1075)"
  have d: "0 < d" "d \<le> now - lastRefill tb"
    using False time_sub_le [of "lastRefill tb" now] by (simp_all add: d_def time_sub_pos_iff)
  have t: "0 < t" "t \<le> 1 / 2 ^ 54"
    using powi2_le_iff [of "- 1075" "- 54"] by (simp_all add: t_def power_int_minus_divide)
  have "secs d \<le> of_int d / 1000000000 * (1 + 1 / 2 ^ 51)" using d(1) by (rule secs_upper)
  also have "\<dots> \<le> x * (1 + 1 / 2 ^ 51)"
    using d(2) by (intro mult_right_mono) (simp_all add: x_def divide_right_mono)
  finally have s: "rate_of tb * secs d \<le> rate_of tb * (x * (1 + 1 / 2 ^ 51))"
    using i(5) by (intro mult_left_mono) auto
  have a0: "0 \<le> rate_of tb * secs d" using i(5) d by (simp add: secs_nonneg)
  have "a \<le> rate_of tb * secs d * (1 + 1 / 2 ^ 53) + t"
    using rnd_upper [OF a0, folded a_def t_def] by (simp add: algebra_simps)
  also have "\<dots> \<le> rate_of tb * (x * (1 + 1 / 2 ^ 51)) * (1 + 1 / 2 ^ 53) + t"
    using s by (intro add_right_mono mult_right_mono) auto
  also have "\<dots> \<le> rate_of tb * x * (1 + 1 / 2 ^ 50) + t"
    using i(5) False by (simp add: field_simps x_def)
  finally have a: "a \<le> rate_of tb * x * (1 + 1 / 2 ^ 50) + t" .
  have "min (rnd (level tb + a)) (cap_of tb) \<le> level tb + a + cap_of tb / 2 ^ 53 + t"
    using i(8,12) a0 by (intro clamp_upper [folded t_def]) (simp_all add: a_def rnd_nonneg)
  moreover have "cap_of tb / 2 ^ 53 + t + t \<le> cap_of tb / 2 ^ 52" using t i(12) by (simp add: field_simps)
  ultimately show ?thesis
    using False a by (simp add: refilled_def max_def x_def exact_gain_def flip: d_def a_def)
qed


text \<open>A sequence of calls \<open>AllowN(n)\<close> at given clock readings, and what it is granted.\<close>

fun tb_run :: "(time \<times> int) list \<Rightarrow> token_bucket \<Rightarrow> int \<times> token_bucket" where
  "tb_run [] tb = (0, tb)"
| "tb_run ((now, n) # calls) tb =
     (let (ok, tb') = TokenBucket_AllowN now n tb;
          (granted, tb'') = tb_run calls tb'
      in ((if ok then max n 0 else 0) + granted, tb''))"

lemma AllowN_step:
  assumes inv: "tb_inv tb" and ex: "exact_capacity tb" and n: "int64 n"
    and step: "TokenBucket_AllowN now n tb = (ok, tb')"
  shows "tb_inv tb'" "exact_capacity tb'" "capacity tb' = capacity tb" "refillRate tb' = refillRate tb"
    "lastRefill tb \<le> lastRefill tb'" "lastRefill tb' \<le> max now (lastRefill tb)"
    "level tb' + of_int (if ok then max n 0 else 0) \<le> level tb
      + exact_gain (rate_of tb) (lastRefill tb) (lastRefill tb') * (1 + 1 / 2 ^ 50)
      + cap_of tb / 2 ^ 52"
proof -
  show "tb_inv tb'" using AllowN_inv [OF inv n, of now] step by simp
  have eqs: "capacity tb' = capacity tb \<and> refillRate tb' = refillRate tb
    \<and> lastRefill tb \<le> lastRefill tb' \<and> lastRefill tb' \<le> max now (lastRefill tb)"
    using step AllowN_valid [OF inv ex _ n, of now]
    by (cases "0 < n") (auto simp: TokenBucket_AllowN_def)
  then show "capacity tb' = capacity tb" "refillRate tb' = refillRate tb" "exact_capacity tb'"
    "lastRefill tb \<le> lastRefill tb'" "lastRefill tb' \<le> max now (lastRefill tb)"
    using ex by (simp_all add: exact_capacity_def)
  show "level tb' + of_int (if ok then max n 0 else 0) \<le> level tb
      + exact_gain (rate_of tb) (lastRefill tb) (lastRefill tb') * (1 + 1 / 2 ^ 50)
      + cap_of tb / 2 ^ 52"
  proof (cases "0 < n")
    case True
    then have "ok = (of_int n \<le> refilled now tb)" and "lastRefill tb' = max now (lastRefill tb)"
      and "level tb' + of_int (if ok then max n 0 else 0) = refilled now tb"
      using step AllowN_valid [OF inv ex True n, of now] by auto
    then show ?thesis using refilled_upper [OF inv, of now] by simp
  next
    case False
    then have "tb' = tb" using step by (simp add: TokenBucket_AllowN_def)
    with False show ?thesis using tb_invD(12) [OF inv] by simp
  qed
qed

lemma tb_run_bound:
  assumes "tb_inv tb" "exact_capacity tb" "lastRefill tb \<le> T" "\<forall>(now, n) \<in> set calls. now \<le> T \<and> int64 n"
    and "tb_run calls tb = (granted, tb')"
  shows "level tb' + of_int granted \<le> level tb
      + exact_gain (rate_of tb) (lastRefill tb) (lastRefill tb') * (1 + 1 / 2 ^ 50)
      + of_nat (length calls) * (cap_of tb / 2 ^ 52)
    \<and> 0 \<le> level tb' \<and> lastRefill tb' \<le> T"
  using assms
proof (induction calls arbitrary: tb granted)
  case Nil
  then show ?case using tb_invD(8) [of tb] by simp
next
  case (Cons c calls)
  obtain now n where c: "c = (now, n)" by (cases c)
  obtain ok tb1 where s: "TokenBucket_AllowN now n tb = (ok, tb1)" by force
  obtain g where g: "tb_run calls tb1 = (g, tb')" "granted = (if ok then max n 0 else 0) + g"
    using Cons.prems(5) by (auto simp: c s split: prod.splits)
  have n: "int64 n" "now \<le> T" using Cons.prems(4) by (auto simp: c)
  note st = AllowN_step [OF Cons.prems(1,2) n(1) s]
  have "lastRefill tb1 \<le> T" using st(6) n(2) Cons.prems(3) by simp
  then have IH: "level tb' + of_int g \<le> level tb1
      + exact_gain (rate_of tb) (lastRefill tb1) (lastRefill tb') * (1 + 1 / 2 ^ 50)
      + of_nat (length calls) * (cap_of tb / 2 ^ 52)
      \<and> 0 \<le> level tb' \<and> lastRefill tb' \<le> T"
    using Cons.IH [OF st(1,2) _ _ g(1)] Cons.prems(4) by (simp add: st(3,4))
  have "exact_gain (rate_of tb) (lastRefill tb) (lastRefill tb') * (1 + 1 / 2 ^ 50)
    = exact_gain (rate_of tb) (lastRefill tb) (lastRefill tb1) * (1 + 1 / 2 ^ 50)
      + exact_gain (rate_of tb) (lastRefill tb1) (lastRefill tb') * (1 + 1 / 2 ^ 50)"
    by (simp only: distrib_right [symmetric] exact_gain_trans)
  moreover have "of_nat (length (c # calls)) * (cap_of tb / 2 ^ 52)
    = cap_of tb / 2 ^ 52 + of_nat (length calls) * (cap_of tb / 2 ^ 52)"
    by (simp add: field_simps)
  moreover have "(of_int granted :: rat) = of_int (if ok then max n 0 else 0) + of_int g"
    by (simp add: g(2))
  ultimately show ?case using IH st(7) by linarith
qed


lemma tb_run_granted:
  assumes "tb_inv tb" "exact_capacity tb" "lastRefill tb \<le> T"
    and "\<forall>(now, n) \<in> set calls. now \<le> T \<and> int64 n"
  shows "of_int (fst (tb_run calls tb)) \<le> level tb
    + exact_gain (rate_of tb) (lastRefill tb) T * (1 + 1 / 2 ^ 50)
    + of_nat (length calls) * (of_int (capacity tb) / 2 ^ 52)"
proof -
  obtain g tb' where r: "tb_run calls tb = (g, tb')" by force
  note b = tb_run_bound [OF assms r]
  have "exact_gain (rate_of tb) (lastRefill tb) (lastRefill tb')
      \<le> exact_gain (rate_of tb) (lastRefill tb) T"
    using b tb_invD(5) [OF assms(1)] by (intro exact_gain_mono) auto
  then have "exact_gain (rate_of tb) (lastRefill tb) (lastRefill tb') * (1 + 1 / 2 ^ 50)
      \<le> exact_gain (rate_of tb) (lastRefill tb) T * (1 + 1 / 2 ^ 50)"
    by (intro mult_right_mono) auto
  then show ?thesis
    using b unfolding r fst_conv cap_of_exact [OF assms(1,2)] by linarith
qed


section \<open>Properties\<close>

lemmas tb_eval = TokenBucket_AllowN_def TokenBucket_refill_def TokenBucket_Tokens_def Let_def
  time_sub_def duration_seconds_def signed_divide_int_def signed_modulo_int_def f64_sub_def f64_simps

text \<open>
  C1. The rate limit holds: whatever sequence of \<open>AllowN\<close> calls a bucket receives, at
  whatever clock readings up to \<open>T\<close> (also when the clock steps back), the number of tokens
  granted is at most the tokens it held plus the exact refill at its rate up to \<open>T\<close>, up to a
  relative float64 error of \<open>2 ^ -50\<close> on the refill and of \<open>2 ^ -52\<close> of the capacity per
  call.
\<close>

theorem token_bucket_admission_bound:
  assumes "tb_inv tb" "exact_capacity tb" "lastRefill tb \<le> T"
    and "\<forall>(now, n) \<in> set calls. now \<le> T \<and> int64 n"
  shows "of_int (fst (tb_run calls tb)) \<le> level tb
    + exact_gain (rate_of tb) (lastRefill tb) T * (1 + 1 / 2 ^ 50)
    + of_nat (length calls) * (of_int (capacity tb) / 2 ^ 52)"
  using tb_run_granted [OF assms] .

definition demo_bucket :: token_bucket where
  "demo_bucket = \<lparr>capacity = 3, refillRate = Fin 2, tokens = Fin 3, lastRefill = 0\<rparr>"

lemma demo_bucket_ok: "tb_inv demo_bucket" "exact_capacity demo_bucket"
  using rnd_of_int [of 3] rnd_of_int [of 2] 
  by (simp_all add: demo_bucket_def tb_inv_def exact_capacity_def int64_def)

theorem token_bucket_admission_bound_witness:
  "of_int (fst (tb_run [(0, 2), (0, 2), (1000000000, 2)] demo_bucket)) \<le>
     level demo_bucket + exact_gain (rate_of demo_bucket) 0 1000000000 * (1 + 1 / 2 ^ 50)
       + of_nat (length [(0, 2), (0, 2), (1000000000, 2 :: int)]) * (of_int (capacity demo_bucket) / 2 ^ 52)
   \<and> fst (tb_run [(0, 2), (0, 2), (1000000000, 2)] demo_bucket) = 4"
proof (rule conjI)
  have "lastRefill demo_bucket = 0" by (simp add: demo_bucket_def)
  then show "of_int (fst (tb_run [(0, 2), (0, 2), (1000000000, 2)] demo_bucket)) \<le>
     level demo_bucket + exact_gain (rate_of demo_bucket) 0 1000000000 * (1 + 1 / 2 ^ 50)
       + of_nat (length [(0, 2), (0, 2), (1000000000, 2 :: int)]) * (of_int (capacity demo_bucket) / 2 ^ 52)"
    using token_bucket_admission_bound [OF demo_bucket_ok, of 1000000000
        "[(0, 2), (0, 2), (1000000000, 2)]"] by (simp add: int64_def)
  show "fst (tb_run [(0, 2), (0, 2), (1000000000, 2)] demo_bucket) = 4"
    by (simp add: demo_bucket_def tb_eval)
qed


text \<open>
  C33. The bucket's level never leaves \<open>[0, capacity]\<close>: a new bucket with a finite rate has
  between zero and \<open>float64(capacity)\<close> tokens, a representable number, and \<open>AllowN\<close>,
  \<open>Allow\<close>, \<open>Tokens\<close> and \<open>Reset\<close> keep it so.
\<close>

theorem token_bucket_invariant:
  assumes "NewTokenBucket t0 cap rate = Ret tb0" "int64 cap" "f64_rep rate" "rate \<noteq> NaN" "rate \<noteq> PInf"
    and "tb_inv tb" "int64 n"
  shows "tb_inv tb0 \<and> tb_inv (snd (TokenBucket_AllowN now n tb))
    \<and> tb_inv (snd (TokenBucket_Allow now tb)) \<and> tb_inv (snd (TokenBucket_Tokens now tb))
    \<and> tb_inv (TokenBucket_Reset now tb)"
  using NewTokenBucket_inv [OF assms(1-5)] AllowN_inv [OF assms(6,7)] AllowN_inv [OF assms(6), of 1]
    Tokens_inv [OF assms(6)] Reset_inv [OF assms(6)]
  by (simp add: TokenBucket_Allow_def int64_def)

lemma demo_new: "NewTokenBucket 0 3 (Fin 2) = Ret demo_bucket"
  by (simp add: NewTokenBucket_def demo_bucket_def f64_simps)

theorem token_bucket_invariant_witness:
  "tb_inv demo_bucket \<and> tb_inv (snd (TokenBucket_AllowN 5 2 demo_bucket))
    \<and> tb_inv (snd (TokenBucket_Allow 5 demo_bucket)) \<and> tb_inv (snd (TokenBucket_Tokens 5 demo_bucket))
    \<and> tb_inv (TokenBucket_Reset 5 demo_bucket)"
proof -
  have "f64_rep (Fin 2)"
    using power_strict_increasing [of 1 1024 "2::rat"] by (simp add: f64_simps)
  then show ?thesis
    using token_bucket_invariant [OF demo_new _ _ _ _ demo_bucket_ok(1), of 2 5]
    by (simp add: int64_def)
qed

text \<open>
  C34. \<open>Tokens\<close> reports exactly what can be taken: at the same clock reading
  \<open>AllowN(n)\<close> with a positive \<open>n\<close> succeeds if and only if \<open>n\<close> is at most the
  reported count, and on success the level falls by exactly \<open>n\<close>, on refusal by nothing.
\<close>

theorem token_bucket_tokens_exact:
  assumes "tb_inv tb" "exact_capacity tb" "0 < n" "int64 n"
  shows "(fst (TokenBucket_AllowN now n tb) \<longleftrightarrow> n \<le> fst (TokenBucket_Tokens now tb))
    \<and> level (snd (TokenBucket_AllowN now n tb)) = level (snd (TokenBucket_Tokens now tb))
        - (if fst (TokenBucket_AllowN now n tb) then of_int n else 0)"
proof -
  have "level (snd (TokenBucket_Tokens now tb)) = refilled now tb"
    by (simp add: TokenBucket_Tokens_def Let_def refill_valid [OF assms(1)])
  then show ?thesis
    by (simp add: AllowN_valid [OF assms] Tokens_valid [OF assms(1,2)] le_floor_iff)
qed

theorem token_bucket_tokens_exact_witness:
  "(fst (TokenBucket_AllowN 7 3 demo_bucket) \<longleftrightarrow> 3 \<le> fst (TokenBucket_Tokens 7 demo_bucket))
    \<and> level (snd (TokenBucket_AllowN 7 3 demo_bucket)) = level (snd (TokenBucket_Tokens 7 demo_bucket))
        - (if fst (TokenBucket_AllowN 7 3 demo_bucket) then of_int 3 else 0)"
  using token_bucket_tokens_exact [OF demo_bucket_ok, of 3 7] by (simp add: int64_def)

text \<open>
  C35. A client that waits is served: if \<open>s\<close> whole seconds have passed since the last
  refill and the rate yields at least \<open>n\<close> tokens in that time, a request for \<open>n\<close> of at
  most the capacity is granted, however empty the bucket was.
\<close>

theorem token_bucket_refill_liveness:
  assumes "tb_inv tb" "exact_capacity tb" "0 < n" "n \<le> capacity tb"
    and "0 \<le> s" "lastRefill tb + s * second \<le> now" "int64 (now - lastRefill tb)"
    and "of_int n \<le> rate_of tb * of_int s"
  shows "fst (TokenBucket_AllowN now n tb)"
proof -
  note i = tb_invD [OF assms(1)]
  have d: "time_sub now (lastRefill tb) = now - lastRefill tb" using assms(7) by (rule time_sub_exact)
  have n53: "n < 2 ^ 53" using assms(2,4) by (simp add: exact_capacity_def)
  have s1: "1 \<le> s" using assms(3,5,8) by (cases "s = 0") auto
  have s53: "s \<le> 2 ^ 53" using assms(5,6,7) by (simp add: int64_def)
  have "of_int s = secs (s * second)" using assms(5) s53 by (simp add: secs_whole)
  also have "\<dots> \<le> secs (time_sub now (lastRefill tb))"
    using assms(5,6) by (intro secs_mono) (simp_all add: d)
  finally have "rate_of tb * of_int s \<le> rate_of tb * secs (time_sub now (lastRefill tb))"
    using i(5) by (intro mult_left_mono) auto
  with assms(8) have "of_int n \<le> rate_of tb * secs (time_sub now (lastRefill tb))" by linarith
  then have "of_int n \<le> rnd (rate_of tb * secs (time_sub now (lastRefill tb)))"
    using assms(3) n53 by (intro f64.rd_ge_rep rnd_of_int) auto
  then have "of_int n \<le> rnd (level tb + rnd (rate_of tb * secs (time_sub now (lastRefill tb))))"
    using assms(3) n53 i(8) by (intro f64.rd_ge_rep rnd_of_int) auto
  moreover have "of_int n \<le> cap_of tb" using assms(1,2,4) by (simp add: cap_of_exact)
  ultimately have "of_int n \<le> refilled now tb"
    using assms(6) s1 by (simp add: refilled_def)
  moreover have "int64 n" using assms(3) n53 by (simp add: int64_def)
  ultimately show ?thesis using AllowN_valid [OF assms(1-3)] by simp
qed

definition drained_bucket :: token_bucket where
  "drained_bucket = demo_bucket\<lparr>tokens := Fin 0\<rparr>"

theorem token_bucket_refill_liveness_witness: "fst (TokenBucket_AllowN 1000000000 2 drained_bucket)"
proof -
  have "tb_inv drained_bucket" "exact_capacity drained_bucket"
    using demo_bucket_ok rnd_numeral [of "num.Bit1 num.One"]
    by (simp_all add: drained_bucket_def tb_inv_def exact_capacity_def demo_bucket_def)
  from token_bucket_refill_liveness [OF this, of 2 1 1000000000] show ?thesis
    by (simp add: drained_bucket_def demo_bucket_def int64_def)
qed

text \<open>
  A rate that is not a number passes the constructor's check (\<open>refillRate <= 0\<close> is
  false for NaN), and from the first refill on the bucket refuses every positive request for
  ever; \<open>Reset\<close> alone revives it until the clock moves.
\<close>

theorem token_bucket_nan_rate:
  assumes "1 \<le> cap"
  shows "\<exists>tb. NewTokenBucket t0 cap NaN = Ret tb
    \<and> (\<forall>t1 t2 n m. t0 < t1 \<longrightarrow> 0 < n \<longrightarrow> 0 < m \<longrightarrow>
         \<not> fst (TokenBucket_AllowN t1 n tb)
         \<and> \<not> fst (TokenBucket_AllowN t2 m (snd (TokenBucket_AllowN t1 n tb))))"
proof -
  define tb where "tb = \<lparr>capacity = cap, refillRate = NaN, tokens = f64_of_int cap, lastRefill = t0\<rparr>"
  have le: "\<not> f64_le x NaN" for x by (cases x) auto
  have lt: "\<not> f64_lt x NaN" for x by (cases x) auto
  have add: "f64_add x NaN = NaN" for x by (cases x) auto
  have r1: "TokenBucket_refill t1 tb = tb\<lparr>tokens := NaN, lastRefill := t1\<rparr>" if "t0 < t1" for t1
    using that time_sub_pos_iff [of t1 t0] by (simp add: TokenBucket_refill_def tb_def Let_def add lt)
  have r2: "tokens (TokenBucket_refill t2 (tb\<lparr>tokens := NaN, lastRefill := t1\<rparr>)) = NaN" for t1 t2
    by (simp add: TokenBucket_refill_def Let_def lt)
  have "NewTokenBucket t0 cap NaN = Ret tb" using assms by (simp add: NewTokenBucket_def tb_def)
  then show ?thesis
    by (intro exI [of _ tb]) (auto simp: TokenBucket_AllowN_def Let_def r1 r2 le)
qed

theorem token_bucket_nan_rate_witness:
  "\<exists>tb. NewTokenBucket 0 3 NaN = Ret tb \<and> \<not> fst (TokenBucket_AllowN 1 1 tb)
    \<and> \<not> fst (TokenBucket_AllowN 2000000000 2 (snd (TokenBucket_AllowN 1 1 tb)))"
proof -
  obtain tb where tb: "NewTokenBucket 0 3 NaN = Ret tb"
    and no: "\<And>t1 t2 n m. 0 < t1 \<Longrightarrow> 0 < n \<Longrightarrow> 0 < m \<Longrightarrow> \<not> fst (TokenBucket_AllowN t1 n tb)
      \<and> \<not> fst (TokenBucket_AllowN t2 m (snd (TokenBucket_AllowN t1 n tb)))"
    using token_bucket_nan_rate [of 3 0] by auto
  show ?thesis using tb no [of 1 1 2 2000000000] by (intro exI [of _ tb]) simp
qed

end
