(* ===== verification/Limiter_Interface.thy ===== *)
theory Limiter_Interface
  imports Float64
begin

text \<open>
  The interface of \<open>internal/ratelimit/ratelimit.go\<close>: the configuration shared by the
  backends and the operations of \<open>Limiter\<close>. An operation takes the clock readings it makes,
  the client identifier and the backend's state; a panic is an outcome and leaves the state
  it had reached. The locale \<open>limiter\<close> is what the middleware may rely on: operations on one
  client do not touch an independent one, and \<open>Tokens\<close> touches none.
\<close>

record limiter_config =
  TokensPerSecond :: f64
  BurstSize :: int
  CleanupInterval :: duration

record 's limiter_ops =
  op_Allow :: "clock \<Rightarrow> string \<Rightarrow> 's \<Rightarrow> 's \<times> (bool \<times> go_error option) outcome"
  op_Tokens :: "clock \<Rightarrow> string \<Rightarrow> 's \<Rightarrow> 's \<times> (int \<times> go_error option) outcome"
  op_Reset :: "clock \<Rightarrow> string \<Rightarrow> 's \<Rightarrow> 's \<times> go_error option outcome"
  op_SetLimit :: "clock \<Rightarrow> string \<Rightarrow> int \<Rightarrow> f64 \<Rightarrow> 's \<Rightarrow> 's \<times> go_error option outcome"
  op_Close :: "'s \<Rightarrow> 's \<times> go_error option outcome"

locale limiter =
  fixes ops :: "'s limiter_ops"
    and view :: "'s \<Rightarrow> string \<Rightarrow> 'v"
    and inv :: "'s \<Rightarrow> bool"
    and indep :: "string \<Rightarrow> string \<Rightarrow> bool"
  assumes allow_other: "inv s \<Longrightarrow> indep c d \<Longrightarrow> view (fst (op_Allow ops clk c s)) d = view s d"
    and tokens_other: "inv s \<Longrightarrow> indep c d \<Longrightarrow> view (fst (op_Tokens ops clk c s)) d = view s d"
    and set_limit_other: "inv s \<Longrightarrow> indep c d \<Longrightarrow> int64 b \<Longrightarrow> f64_rep r \<Longrightarrow> r \<noteq> NaN \<Longrightarrow> r \<noteq> PInf \<Longrightarrow>
      view (fst (op_SetLimit ops clk c b r s)) d = view s d"
    and reset_other: "inv s \<Longrightarrow> indep c d \<Longrightarrow> view (fst (op_Reset ops clk c s)) d = view s d"
    and allow_inv: "inv s \<Longrightarrow> inv (fst (op_Allow ops clk c s))"
    and tokens_inv: "inv s \<Longrightarrow> inv (fst (op_Tokens ops clk c s))"
    and set_limit_inv: "inv s \<Longrightarrow> int64 b \<Longrightarrow> f64_rep r \<Longrightarrow> r \<noteq> NaN \<Longrightarrow> r \<noteq> PInf \<Longrightarrow>
      inv (fst (op_SetLimit ops clk c b r s))"
    and reset_inv: "inv s \<Longrightarrow> inv (fst (op_Reset ops clk c s))"

end
