(* ===== verification/Memory_Limiter.thy ===== *)
theory Memory_Limiter
  imports Token_Bucket Limiter_Interface
begin

text \<open>
  The in-memory backend of \<open>internal/ratelimit/memory_limiter.go\<close>. The limiter hands out
  pointers to token buckets that outlive its own critical section, so the model has an
  explicit heap: \<open>buckets\<close> maps a client to an entry with the address of its bucket,
  \<open>heap\<close> maps addresses to buckets. A method is one step on the record, except \<open>AllowN\<close>,
  which is two: \<open>getOrCreateBucket\<close> under the limiter's mutex, then \<open>AllowN\<close> of the bucket
  under the bucket's own.
\<close>

section \<open>The limiter and its operations\<close>

record bucketEntry =
  bucket :: nat
  lastUsed :: time

record memory_limiter =
  buckets :: "string \<rightharpoonup> bucketEntry"
  mem_config :: limiter_config
  heap :: "nat \<rightharpoonup> token_bucket"
  next_addr :: nat
  stopped :: bool

definition NewMemoryLimiter :: "limiter_config \<Rightarrow> memory_limiter" where
  "NewMemoryLimiter config =
     (let config' = (if CleanupInterval config \<le> 0 then config\<lparr>CleanupInterval := 1 * second\<rparr> else config) in
      \<lparr>buckets = Map.empty, mem_config = config', heap = Map.empty, next_addr = 0, stopped = False\<rparr>)"

definition alloc :: "token_bucket \<Rightarrow> memory_limiter \<Rightarrow> memory_limiter \<times> nat" where
  "alloc tb m = (m\<lparr>heap := (heap m)(next_addr m \<mapsto> tb), next_addr := Suc (next_addr m)\<rparr>, next_addr m)"

definition getOrCreateBucket :: "clock \<Rightarrow> string \<Rightarrow> memory_limiter \<Rightarrow> memory_limiter \<times> nat outcome" where
  "getOrCreateBucket clk clientID m =
     (case buckets m clientID of
        None \<Rightarrow>
          (case NewTokenBucket (clk 0) (BurstSize (mem_config m)) (TokensPerSecond (mem_config m)) of
             Panic e \<Rightarrow> (m, Panic e)
           | Ret tb \<Rightarrow>
               let (m', a) = alloc tb m in
               (m'\<lparr>buckets := (buckets m')(clientID \<mapsto> \<lparr>bucket = a, lastUsed = clk 1\<rparr>)\<rparr>, Ret a))
      | Some entry \<Rightarrow>
          (m\<lparr>buckets := (buckets m)(clientID \<mapsto> entry\<lparr>lastUsed := clk 0\<rparr>)\<rparr>, Ret (bucket entry)))"

text \<open>A method call on a bucket behind a pointer; a dangling pointer would be a nil panic.\<close>

definition on_bucket :: "nat \<Rightarrow> (token_bucket \<Rightarrow> 'a \<times> token_bucket) \<Rightarrow> memory_limiter
    \<Rightarrow> memory_limiter \<times> 'a outcome" where
  "on_bucket a f m =
     (case heap m a of
        None \<Rightarrow> (m, Panic ''invalid memory address or nil pointer dereference'')
      | Some tb \<Rightarrow> (let (x, tb') = f tb in (m\<lparr>heap := (heap m)(a \<mapsto> tb')\<rparr>, Ret x)))"

definition MemoryLimiter_AllowN :: "clock \<Rightarrow> string \<Rightarrow> int \<Rightarrow> memory_limiter
    \<Rightarrow> memory_limiter \<times> (bool \<times> go_error option) outcome" where
  "MemoryLimiter_AllowN clk clientID n m =
     (case getOrCreateBucket clk clientID m of
        (m', Panic e) \<Rightarrow> (m', Panic e)
      | (m', Ret a) \<Rightarrow>
          (case on_bucket a (TokenBucket_AllowN (clk 2) n) m' of
             (m'', Panic e) \<Rightarrow> (m'', Panic e)
           | (m'', Ret ok) \<Rightarrow> (m'', Ret (ok, None))))"

definition MemoryLimiter_Allow :: "clock \<Rightarrow> string \<Rightarrow> memory_limiter
    \<Rightarrow> memory_limiter \<times> (bool \<times> go_error option) outcome" where
  "MemoryLimiter_Allow clk clientID m = MemoryLimiter_AllowN clk clientID 1 m"

definition MemoryLimiter_Tokens :: "clock \<Rightarrow> string \<Rightarrow> memory_limiter
    \<Rightarrow> memory_limiter \<times> (int \<times> go_error option) outcome" where
  "MemoryLimiter_Tokens clk clientID m =
     (case buckets m clientID of
        None \<Rightarrow> (m, Ret (BurstSize (mem_config m), None))
      | Some entry \<Rightarrow>
          (case on_bucket (bucket entry) (TokenBucket_Tokens (clk 0)) m of
             (m', Panic e) \<Rightarrow> (m', Panic e)
           | (m', Ret k) \<Rightarrow> (m', Ret (k, None))))"

definition MemoryLimiter_Reset :: "clock \<Rightarrow> string \<Rightarrow> memory_limiter
    \<Rightarrow> memory_limiter \<times> go_error option outcome" where
  "MemoryLimiter_Reset clk clientID m = (m\<lparr>buckets := (buckets m)(clientID := None)\<rparr>, Ret None)"

definition MemoryLimiter_SetLimit :: "clock \<Rightarrow> string \<Rightarrow> int \<Rightarrow> f64 \<Rightarrow> memory_limiter
    \<Rightarrow> memory_limiter \<times> go_error option outcome" where
  "MemoryLimiter_SetLimit clk clientID burst rps m =
     (case NewTokenBucket (clk 0) burst rps of
        Panic e \<Rightarrow> (m, Panic e)
      | Ret tb \<Rightarrow>
          let (m', a) = alloc tb m in
          (m'\<lparr>buckets := (buckets m')(clientID \<mapsto> \<lparr>bucket = a, lastUsed = clk 1\<rparr>)\<rparr>, Ret None))"

definition MemoryLimiter_Close :: "memory_limiter \<Rightarrow> memory_limiter \<times> go_error option outcome" where
  "MemoryLimiter_Close m = (m\<lparr>stopped := True\<rparr>, Ret None)"

definition MemoryLimiter_cleanup :: "time \<Rightarrow> memory_limiter \<Rightarrow> memory_limiter" where
  "MemoryLimiter_cleanup now m =
     (let idleThreshold = now + wrap64 (- 2 * CleanupInterval (mem_config m)) in
      m\<lparr>buckets := (\<lambda>clientID. case buckets m clientID of
           None \<Rightarrow> None
         | Some entry \<Rightarrow> if lastUsed entry < idleThreshold then None else Some entry)\<rparr>)"

text \<open>
  The cleanup goroutine: it waits for a tick or for the stop channel. The argument lists what
  happens to it, in order.
\<close>

datatype loop_event = Tick time | Stop

fun cleanup_events :: "loop_event list \<Rightarrow> memory_limiter \<Rightarrow> memory_limiter" where
  "cleanup_events [] m = m"
| "cleanup_events (Stop # es) m = m"
| "cleanup_events (Tick now # es) m = cleanup_events es (MemoryLimiter_cleanup now m)"

definition MemoryLimiter_cleanupLoop :: "loop_event list \<Rightarrow> memory_limiter \<Rightarrow> memory_limiter" where
  "MemoryLimiter_cleanupLoop es m =
     (if CleanupInterval (mem_config m) \<le> 0 then m else cleanup_events es m)"

definition memory_ops :: "memory_limiter limiter_ops" where
  "memory_ops = \<lparr>op_Allow = MemoryLimiter_Allow, op_Tokens = MemoryLimiter_Tokens,
     op_Reset = MemoryLimiter_Reset, op_SetLimit = MemoryLimiter_SetLimit, op_Close = MemoryLimiter_Close\<rparr>"


section \<open>Invariant and the clients' view\<close>

definition config_ok :: "limiter_config \<Rightarrow> bool" where
  "config_ok cfg \<longleftrightarrow> 1 \<le> BurstSize cfg \<and> int64 (BurstSize cfg) \<and> finite_rate (TokensPerSecond cfg)
     \<and> f64_rep (TokensPerSecond cfg)"

definition mem_inv :: "memory_limiter \<Rightarrow> bool" where
  "mem_inv m \<longleftrightarrow> config_ok (mem_config m)
     \<and> (\<forall>c e. buckets m c = Some e \<longrightarrow> (\<exists>tb. heap m (bucket e) = Some tb \<and> tb_inv tb))
     \<and> (\<forall>c d e f. buckets m c = Some e \<longrightarrow> buckets m d = Some f \<longrightarrow> bucket e = bucket f \<longrightarrow> c = d)
     \<and> (\<forall>a tb. heap m a = Some tb \<longrightarrow> a < next_addr m)"

text \<open>What a client owns: its bucket, looked up through the entry.\<close>

definition client_bucket :: "memory_limiter \<Rightarrow> string \<rightharpoonup> token_bucket" where
  "client_bucket m c = (case buckets m c of None \<Rightarrow> None | Some e \<Rightarrow> heap m (bucket e))"

lemma mem_invD:
  assumes "mem_inv m"
  shows "config_ok (mem_config m)"
    and "\<And>c e. buckets m c = Some e \<Longrightarrow> \<exists>tb. heap m (bucket e) = Some tb \<and> tb_inv tb"
    and "\<And>c d e f. buckets m c = Some e \<Longrightarrow> buckets m d = Some f \<Longrightarrow> bucket e = bucket f \<Longrightarrow> c = d"
    and "\<And>a tb. heap m a = Some tb \<Longrightarrow> a < next_addr m"
  using assms unfolding mem_inv_def by blast+

lemma mem_invI:
  assumes "config_ok (mem_config m)"
    and "\<And>c e. buckets m c = Some e \<Longrightarrow> \<exists>tb. heap m (bucket e) = Some tb \<and> tb_inv tb"
    and "\<And>c d e f. buckets m c = Some e \<Longrightarrow> buckets m d = Some f \<Longrightarrow> bucket e = bucket f \<Longrightarrow> c = d"
    and "\<And>a tb. heap m a = Some tb \<Longrightarrow> a < next_addr m"
  shows "mem_inv m"
  using assms unfolding mem_inv_def by blast

lemma client_bucket_inv: "mem_inv m \<Longrightarrow> client_bucket m c = Some tb \<Longrightarrow> tb_inv tb"
  using mem_invD(2) [of m c] by (fastforce simp: client_bucket_def split: option.splits)

lemma client_bucket_None: "mem_inv m \<Longrightarrow> client_bucket m c = None \<longleftrightarrow> buckets m c = None"
  using mem_invD(2) [of m c] by (fastforce simp: client_bucket_def split: option.splits)

lemma config_ok_new:
  assumes "config_ok cfg" "NewTokenBucket t (BurstSize cfg) (TokensPerSecond cfg) = r"
  shows "\<exists>tb. r = Ret tb \<and> tb_inv tb"
proof -
  have "\<exists>tb. NewTokenBucket t (BurstSize cfg) (TokensPerSecond cfg) = Ret tb"
    using assms(1) by (cases "TokensPerSecond cfg") (auto simp: config_ok_def NewTokenBucket_def)
  moreover have "TokensPerSecond cfg \<noteq> NaN" "TokensPerSecond cfg \<noteq> PInf"
    using assms(1) by (auto simp: config_ok_def)
  ultimately show ?thesis
    using assms NewTokenBucket_inv by (fastforce simp: config_ok_def)
qed

text \<open>Storing a fresh bucket for a client, and running a method of the bucket a client owns.\<close>

lemma install:
  assumes inv: "mem_inv m" and tb: "tb_inv tb" and al: "alloc tb m = (m', a)"
  shows "mem_inv (m'\<lparr>buckets := (buckets m')(c \<mapsto> \<lparr>bucket = a, lastUsed = t\<rparr>)\<rparr>)"
    "client_bucket (m'\<lparr>buckets := (buckets m')(c \<mapsto> \<lparr>bucket = a, lastUsed = t\<rparr>)\<rparr>) = (client_bucket m)(c \<mapsto> tb)"
proof -
  note i = mem_invD [OF inv]
  have fresh: "bucket e \<noteq> next_addr m" if "buckets m d = Some e" for d e
    using i(2) [OF that] i(4) by fastforce
  have m': "m' = m\<lparr>heap := (heap m)(next_addr m \<mapsto> tb), next_addr := Suc (next_addr m)\<rparr>" "a = next_addr m"
    using al by (auto simp: alloc_def)
  show "mem_inv (m'\<lparr>buckets := (buckets m')(c \<mapsto> \<lparr>bucket = a, lastUsed = t\<rparr>)\<rparr>)"
  proof (rule mem_invI, goal_cases)
    case 1
    then show ?case using i(1) by (simp add: m')
  next
    case (2 d e)
    then show ?case using i(2) [of d] tb fresh [of d] by (auto simp: m' split: if_splits)
  next
    case (3 d d' e f)
    then show ?case
      using i(3) [of d e d' f] fresh [of d e] fresh [of d' f] by (auto simp: m' split: if_splits)
  next
    case (4 b tb')
    then show ?case using i(4) [of b tb'] by (auto simp: m' split: if_splits)
  qed
  show "client_bucket (m'\<lparr>buckets := (buckets m')(c \<mapsto> \<lparr>bucket = a, lastUsed = t\<rparr>)\<rparr>) = (client_bucket m)(c \<mapsto> tb)"
    by (rule ext) (auto simp: client_bucket_def m' dest: fresh split: option.splits)
qed

lemma on_own_bucket:
  assumes inv: "mem_inv m" and e: "buckets m c = Some e" and tb: "client_bucket m c = Some tb"
    and f: "f tb = (x, tb')" "tb_inv tb'"
  shows "\<exists>m'. on_bucket (bucket e) f m = (m', Ret x) \<and> mem_inv m' \<and> client_bucket m' = (client_bucket m)(c \<mapsto> tb')"
proof -
  note i = mem_invD [OF inv]
  have h: "heap m (bucket e) = Some tb" using tb e by (simp add: client_bucket_def)
  let ?m = "m\<lparr>heap := (heap m)(bucket e \<mapsto> tb')\<rparr>"
  have "on_bucket (bucket e) f m = (?m, Ret x)" by (simp add: on_bucket_def h f)
  moreover have "mem_inv ?m"
  proof (rule mem_invI)
    fix d e' a tb
    show "\<exists>tb. heap ?m (bucket e') = Some tb \<and> tb_inv tb" if "buckets ?m d = Some e'"
      using i(2) that f(2) by simp
    show "a < next_addr ?m" if "heap ?m a = Some tb"
      using that i(4) i(4) [OF h] by (auto split: if_splits)
  qed (use i(1) i(3) in auto)
  moreover have "client_bucket ?m = (client_bucket m)(c \<mapsto> tb')"
  proof
    fix d
    show "client_bucket ?m d = ((client_bucket m)(c \<mapsto> tb')) d"
    proof (cases "d = c \<or> buckets m d = None")
      case True
      then show ?thesis using e by (auto simp: client_bucket_def)
    next
      case False
      then obtain f where f: "buckets m d = Some f" by auto
      then have "bucket f \<noteq> bucket e" using i(3) [OF e f] False by auto
      then show ?thesis using False f by (simp add: client_bucket_def)
    qed
  qed
  ultimately show ?thesis by blast
qed


section \<open>Refinement of the per-client specification\<close>

text \<open>
  The specification has no pointers and no entries: a map from clients to token buckets, in
  which a client without a bucket gets a full one of the configured size on first use.
\<close>

definition spec_AllowN :: "limiter_config \<Rightarrow> clock \<Rightarrow> string \<Rightarrow> int \<Rightarrow> (string \<rightharpoonup> token_bucket)
    \<Rightarrow> (string \<rightharpoonup> token_bucket) \<times> (bool \<times> go_error option) outcome" where
  "spec_AllowN cfg clk c n B =
     (case (case B c of Some tb \<Rightarrow> Ret tb
            | None \<Rightarrow> NewTokenBucket (clk 0) (BurstSize cfg) (TokensPerSecond cfg)) of
        Panic e \<Rightarrow> (B, Panic e)
      | Ret tb \<Rightarrow> (let (ok, tb') = TokenBucket_AllowN (clk 2) n tb in (B(c \<mapsto> tb'), Ret (ok, None))))"

definition spec_Tokens :: "limiter_config \<Rightarrow> clock \<Rightarrow> string \<Rightarrow> (string \<rightharpoonup> token_bucket)
    \<Rightarrow> (string \<rightharpoonup> token_bucket) \<times> (int \<times> go_error option) outcome" where
  "spec_Tokens cfg clk c B =
     (case B c of None \<Rightarrow> (B, Ret (BurstSize cfg, None))
      | Some tb \<Rightarrow> (let (k, tb') = TokenBucket_Tokens (clk 0) tb in (B(c \<mapsto> tb'), Ret (k, None))))"

definition spec_SetLimit :: "clock \<Rightarrow> string \<Rightarrow> int \<Rightarrow> f64 \<Rightarrow> (string \<rightharpoonup> token_bucket)
    \<Rightarrow> (string \<rightharpoonup> token_bucket) \<times> go_error option outcome" where
  "spec_SetLimit clk c b r B =
     (case NewTokenBucket (clk 0) b r of Panic e \<Rightarrow> (B, Panic e) | Ret tb \<Rightarrow> (B(c \<mapsto> tb), Ret None))"

text \<open>Touching \<open>lastUsed\<close> changes nothing a client can see.\<close>

lemma touch:
  assumes inv: "mem_inv m" and e: "buckets m c = Some e"
  shows "mem_inv (m\<lparr>buckets := (buckets m)(c \<mapsto> e\<lparr>lastUsed := t\<rparr>)\<rparr>)"
    "client_bucket (m\<lparr>buckets := (buckets m)(c \<mapsto> e\<lparr>lastUsed := t\<rparr>)\<rparr>) = client_bucket m"
proof -
  note i = mem_invD [OF inv]
  show "mem_inv (m\<lparr>buckets := (buckets m)(c \<mapsto> e\<lparr>lastUsed := t\<rparr>)\<rparr>)"
  proof (rule mem_invI, goal_cases)
    case (2 d f)
    then show ?case using i(2) [of d] i(2) [OF e] by (auto split: if_splits)
  next
    case (3 d d' f f')
    then show ?case
      using i(3) [OF e, of d'] i(3) [OF e, of d] i(3) [of d f d' f'] by (auto split: if_splits)
  qed (use i(1,4) in auto)
  show "client_bucket (m\<lparr>buckets := (buckets m)(c \<mapsto> e\<lparr>lastUsed := t\<rparr>)\<rparr>) = client_bucket m"
    by (rule ext) (simp add: client_bucket_def e split: option.split)
qed

lemma getOrCreateBucket_valid:
  assumes inv: "mem_inv m"
  shows "\<exists>m' e tb. getOrCreateBucket clk c m = (m', Ret (bucket e)) \<and> mem_inv m' \<and> buckets m' c = Some e
    \<and> client_bucket m' = (client_bucket m)(c \<mapsto> tb) \<and> mem_config m' = mem_config m \<and> tb_inv tb
    \<and> (case client_bucket m c of Some tb0 \<Rightarrow> Ret tb0
       | None \<Rightarrow> NewTokenBucket (clk 0) (BurstSize (mem_config m)) (TokensPerSecond (mem_config m))) = Ret tb"
proof (cases "buckets m c")
  case None
  obtain tb where tb: "NewTokenBucket (clk 0) (BurstSize (mem_config m)) (TokensPerSecond (mem_config m)) = Ret tb"
    "tb_inv tb" using config_ok_new [OF mem_invD(1) [OF inv]] by blast
  obtain m1 a where al: "alloc tb m = (m1, a)" by force
  then have "mem_config m1 = mem_config m" by (auto simp: alloc_def)
  moreover have "client_bucket m c = None" using None by (simp add: client_bucket_def)
  ultimately show ?thesis
    using None tb al install [OF inv tb(2) al, of c "clk 1"]
    by (intro exI [of _ "m1\<lparr>buckets := (buckets m1)(c \<mapsto> \<lparr>bucket = a, lastUsed = clk 1\<rparr>)\<rparr>"]
        exI [of _ "\<lparr>bucket = a, lastUsed = clk 1\<rparr>"] exI [of _ tb])
      (simp add: getOrCreateBucket_def)
next
  case (Some e)
  obtain tb where tb: "client_bucket m c = Some tb" "tb_inv tb"
    using mem_invD(2) [OF inv Some] Some by (auto simp: client_bucket_def)
  then have upd: "(client_bucket m)(c \<mapsto> tb) = client_bucket m" by auto
  show ?thesis
    using Some tb upd touch [OF inv Some, of "clk 0"]
    by (intro exI [of _ "m\<lparr>buckets := (buckets m)(c \<mapsto> e\<lparr>lastUsed := clk 0\<rparr>)\<rparr>"]
        exI [of _ "e\<lparr>lastUsed := clk 0\<rparr>"] exI [of _ tb])
      (simp add: getOrCreateBucket_def)
qed

lemma on_bucket_config: "mem_config (fst (on_bucket a f m)) = mem_config m"
  by (auto simp: on_bucket_def split: option.splits prod.splits)

lemma AllowN_refines:
  assumes inv: "mem_inv m" and n: "int64 n"
  shows "client_bucket (fst (MemoryLimiter_AllowN clk c n m)) =
      fst (spec_AllowN (mem_config m) clk c n (client_bucket m))
    \<and> snd (MemoryLimiter_AllowN clk c n m) = snd (spec_AllowN (mem_config m) clk c n (client_bucket m))
    \<and> mem_inv (fst (MemoryLimiter_AllowN clk c n m))
    \<and> mem_config (fst (MemoryLimiter_AllowN clk c n m)) = mem_config m"
proof -
  obtain m' e tb where g: "getOrCreateBucket clk c m = (m', Ret (bucket e))" "mem_inv m'" "buckets m' c = Some e"
    "client_bucket m' = (client_bucket m)(c \<mapsto> tb)" "mem_config m' = mem_config m" "tb_inv tb"
    "(case client_bucket m c of Some tb0 \<Rightarrow> Ret tb0
       | None \<Rightarrow> NewTokenBucket (clk 0) (BurstSize (mem_config m)) (TokensPerSecond (mem_config m))) = Ret tb"
    using getOrCreateBucket_valid [OF inv] by blast
  obtain ok tb' where al: "TokenBucket_AllowN (clk 2) n tb = (ok, tb')" by force
  then have "tb_inv tb'" using AllowN_inv [OF g(6) n, of "clk 2"] by simp
  then obtain m'' where m'': "on_bucket (bucket e) (TokenBucket_AllowN (clk 2) n) m' = (m'', Ret ok)"
    "mem_inv m''" "client_bucket m'' = (client_bucket m')(c \<mapsto> tb')"
    using on_own_bucket [where f = "TokenBucket_AllowN (clk 2) n", OF g(2,3) _ al] g(4) by auto
  moreover have "mem_config m'' = mem_config m"
    using on_bucket_config [of "bucket e" "TokenBucket_AllowN (clk 2) n" m'] m''(1) g(5) by simp
  ultimately show ?thesis
    by (simp add: MemoryLimiter_AllowN_def spec_AllowN_def g(1,4,7) al)
qed


lemma Tokens_refines:
  assumes inv: "mem_inv m"
  shows "client_bucket (fst (MemoryLimiter_Tokens clk c m)) =
      fst (spec_Tokens (mem_config m) clk c (client_bucket m))
    \<and> snd (MemoryLimiter_Tokens clk c m) = snd (spec_Tokens (mem_config m) clk c (client_bucket m))
    \<and> mem_inv (fst (MemoryLimiter_Tokens clk c m))
    \<and> mem_config (fst (MemoryLimiter_Tokens clk c m)) = mem_config m"
proof (cases "buckets m c")
  case None
  then show ?thesis using inv by (simp add: MemoryLimiter_Tokens_def spec_Tokens_def client_bucket_def)
next
  case (Some e)
  obtain tb where tb: "client_bucket m c = Some tb" "tb_inv tb"
    using mem_invD(2) [OF inv Some] Some by (auto simp: client_bucket_def)
  obtain k tb' where t: "TokenBucket_Tokens (clk 0) tb = (k, tb')" by force
  then have "tb_inv tb'" using Tokens_inv [OF tb(2), of "clk 0"] by simp
  then obtain m' where m': "on_bucket (bucket e) (TokenBucket_Tokens (clk 0)) m = (m', Ret k)"
    "mem_inv m'" "client_bucket m' = (client_bucket m)(c \<mapsto> tb')"
    using on_own_bucket [where f = "TokenBucket_Tokens (clk 0)", OF inv Some tb(1) t] by auto
  moreover have "mem_config m' = mem_config m"
    using on_bucket_config [of "bucket e" "TokenBucket_Tokens (clk 0)" m] m'(1) by simp
  ultimately show ?thesis using Some tb t by (simp add: MemoryLimiter_Tokens_def spec_Tokens_def)
qed

lemma SetLimit_refines:
  assumes inv: "mem_inv m" and b: "int64 b" "f64_rep r" "r \<noteq> NaN" "r \<noteq> PInf"
  shows "client_bucket (fst (MemoryLimiter_SetLimit clk c b r m)) = fst (spec_SetLimit clk c b r (client_bucket m))
    \<and> snd (MemoryLimiter_SetLimit clk c b r m) = snd (spec_SetLimit clk c b r (client_bucket m))
    \<and> mem_inv (fst (MemoryLimiter_SetLimit clk c b r m))
    \<and> mem_config (fst (MemoryLimiter_SetLimit clk c b r m)) = mem_config m"
proof (cases "NewTokenBucket (clk 0) b r")
  case (Panic e)
  then show ?thesis using inv by (simp add: MemoryLimiter_SetLimit_def spec_SetLimit_def)
next
  case (Ret tb)
  obtain m' a where al: "alloc tb m = (m', a)" by force
  have "tb_inv tb" using NewTokenBucket_inv [OF Ret b] .
  from install [OF inv this al, of c "clk 1"] Ret al show ?thesis
    by (auto simp: MemoryLimiter_SetLimit_def spec_SetLimit_def alloc_def)
qed

text \<open>Dropping entries, by \<open>Reset\<close> or by the cleanup.\<close>

lemma drop_entries:
  assumes inv: "mem_inv m" and sub: "\<And>c. B c = buckets m c \<or> B c = None"
  shows "mem_inv (m\<lparr>buckets := B\<rparr>)"
    "client_bucket (m\<lparr>buckets := B\<rparr>) c = (if B c = None then None else client_bucket m c)"
proof -
  note i = mem_invD [OF inv]
  have old: "buckets m c = Some e" if "B c = Some e" for c e using sub [of c] that by simp
  show "mem_inv (m\<lparr>buckets := B\<rparr>)"
  proof (rule mem_invI, goal_cases)
    case (2 c e)
    then show ?case using i(2) [OF old] by simp
  next
    case (3 c d e f)
    then show ?case using i(3) [OF old old] by simp
  qed (use i(1,4) in auto)
  show "client_bucket (m\<lparr>buckets := B\<rparr>) c = (if B c = None then None else client_bucket m c)"
    using sub [of c] by (auto simp: client_bucket_def split: option.splits)
qed

lemma Reset_refines:
  assumes "mem_inv m"
  shows "client_bucket (fst (MemoryLimiter_Reset clk c m)) = (client_bucket m)(c := None)
    \<and> snd (MemoryLimiter_Reset clk c m) = Ret None \<and> mem_inv (fst (MemoryLimiter_Reset clk c m))"
proof -
  have sub: "((buckets m)(c := None)) d = buckets m d \<or> ((buckets m)(c := None)) d = None" for d by simp
  have "client_bucket (m\<lparr>buckets := (buckets m)(c := None)\<rparr>) = (client_bucket m)(c := None)"
    by (rule ext) (simp add: client_bucket_def split: option.split)
  with drop_entries(1) [where B = "(buckets m)(c := None)", OF assms sub] show ?thesis
    by (simp add: MemoryLimiter_Reset_def)
qed

definition idle_since :: "time \<Rightarrow> memory_limiter \<Rightarrow> string \<Rightarrow> bool" where
  "idle_since t m c \<longleftrightarrow> (\<exists>e. buckets m c = Some e \<and> lastUsed e < t)"

lemma cleanup_refines:
  assumes inv: "mem_inv m" and i: "int64 (- 2 * CleanupInterval (mem_config m))"
  shows "mem_inv (MemoryLimiter_cleanup now m)"
    "client_bucket (MemoryLimiter_cleanup now m) c =
       (if idle_since (now - 2 * CleanupInterval (mem_config m)) m c then None else client_bucket m c)"
proof -
  let ?B = "\<lambda>c. case buckets m c of None \<Rightarrow> None
     | Some e \<Rightarrow> if lastUsed e < now - 2 * CleanupInterval (mem_config m) then None else Some e"
  have eq: "MemoryLimiter_cleanup now m = m\<lparr>buckets := ?B\<rparr>"
    using wrap64_id [OF i] by (simp add: MemoryLimiter_cleanup_def Let_def cong: option.case_cong)
  have sub: "?B c = buckets m c \<or> ?B c = None" for c by (simp split: option.split)
  show "mem_inv (MemoryLimiter_cleanup now m)" unfolding eq using inv sub by (rule drop_entries)
  show "client_bucket (MemoryLimiter_cleanup now m) c =
       (if idle_since (now - 2 * CleanupInterval (mem_config m)) m c then None else client_bucket m c)"
    unfolding eq drop_entries(2) [OF inv sub]
    by (auto simp: idle_since_def client_bucket_def split: option.splits)
qed

lemma NewMemoryLimiter_inv:
  "config_ok cfg \<Longrightarrow> mem_inv (NewMemoryLimiter cfg) \<and> client_bucket (NewMemoryLimiter cfg) = Map.empty"
  by (auto simp: NewMemoryLimiter_def mem_inv_def config_ok_def client_bucket_def Let_def)

interpretation mem: limiter memory_ops client_bucket mem_inv "(\<noteq>)"
proof unfold_locales
  fix m :: memory_limiter and clk c b r and d :: string
  assume inv: "mem_inv m"
  note a = AllowN_refines [OF inv, of 1 clk c] and t = Tokens_refines [OF inv, of clk c]
    and rs = Reset_refines [OF inv, of clk c]
  have one: "int64 1" by (simp add: int64_def)
  show "mem_inv (fst (op_Allow memory_ops clk c m))"
    using a one by (simp add: memory_ops_def MemoryLimiter_Allow_def)
  show "mem_inv (fst (op_Tokens memory_ops clk c m))" using t by (simp add: memory_ops_def)
  show "mem_inv (fst (op_Reset memory_ops clk c m))" using rs by (simp add: memory_ops_def)
  { assume "c \<noteq> d"
    then show "client_bucket (fst (op_Allow memory_ops clk c m)) d = client_bucket m d"
      using a one by (auto simp: memory_ops_def MemoryLimiter_Allow_def spec_AllowN_def
          split: option.splits outcome.splits prod.splits) }
  { assume "c \<noteq> d"
    then show "client_bucket (fst (op_Tokens memory_ops clk c m)) d = client_bucket m d"
      using t by (auto simp: memory_ops_def spec_Tokens_def split: option.splits prod.splits) }
  { assume "c \<noteq> d"
    then show "client_bucket (fst (op_Reset memory_ops clk c m)) d = client_bucket m d"
      using rs by (simp add: memory_ops_def) }
  assume b: "int64 b" "f64_rep r" "r \<noteq> NaN" "r \<noteq> PInf"
  note sl = SetLimit_refines [OF inv b, of clk c]
  show "mem_inv (fst (op_SetLimit memory_ops clk c b r m))" using sl by (simp add: memory_ops_def)
  assume "c \<noteq> d"
  then show "client_bucket (fst (op_SetLimit memory_ops clk c b r m)) d = client_bucket m d"
    using sl by (auto simp: memory_ops_def spec_SetLimit_def split: outcome.splits)
qed


section \<open>Runs of calls by several clients\<close>

text \<open>
  A run interleaves \<open>AllowN\<close> calls of any clients; the first component is what one client
  \<open>c\<close> is granted.
\<close>

fun mem_run :: "string \<Rightarrow> (clock \<times> string \<times> int) list \<Rightarrow> memory_limiter \<Rightarrow> int \<times> memory_limiter" where
  "mem_run c [] m = (0, m)"
| "mem_run c ((clk, d, n) # calls) m =
     (case MemoryLimiter_AllowN clk d n m of
        (m', Panic e) \<Rightarrow> mem_run c calls m'
      | (m', Ret (ok, err)) \<Rightarrow>
          let (granted, m'') = mem_run c calls m'
          in ((if d = c \<and> ok then max n 0 else 0) + granted, m''))"

text \<open>The calls of one client, with the reading at which its bucket is charged.\<close>

definition own_calls :: "string \<Rightarrow> (clock \<times> string \<times> int) list \<Rightarrow> (time \<times> int) list" where
  "own_calls c calls = [(clk 2, n). (clk, d, n) \<leftarrow> calls, d = c]"

lemma own_calls_simps [simp]:
  "own_calls c [] = []"
  "own_calls c ((clk, d, n) # calls) = (if d = c then [(clk 2, n)] else []) @ own_calls c calls"
  by (simp_all add: own_calls_def)

lemma mem_run_own:
  assumes "mem_inv m" "client_bucket m c = Some tb" "\<forall>(clk, d, n) \<in> set calls. int64 n"
  shows "fst (mem_run c calls m) = fst (tb_run (own_calls c calls) tb)"
  using assms
proof (induction calls arbitrary: m tb)
  case (Cons call calls)
  obtain clk d n where call: "call = (clk, d, n)" by (cases call)
  have n: "int64 n" using Cons.prems(3) by (simp add: call)
  note r = AllowN_refines [OF Cons.prems(1) n, of clk d]
  obtain m' res where s: "MemoryLimiter_AllowN clk d n m = (m', res)" by force
  show ?case
  proof (cases "d = c")
    case True
    obtain ok tb' where a: "TokenBucket_AllowN (clk 2) n tb = (ok, tb')" by force
    have "res = Ret (ok, None)" "client_bucket m' c = Some tb'" "mem_inv m'"
      using r s by (simp_all add: True spec_AllowN_def Cons.prems(2) a)
    then show ?thesis
      using Cons.IH [of m' tb'] Cons.prems(3) s by (simp add: call True a case_prod_beta)
  next
    case False
    then have "client_bucket m' c = Some tb" "mem_inv m'"
      using r Cons.prems(2) by (auto simp: s spec_AllowN_def split: option.splits outcome.splits prod.splits)
    then show ?thesis
      using Cons.IH [of m' tb] Cons.prems(3) False
      by (auto simp: call s split: prod.splits outcome.splits)
  qed
qed simp

text \<open>A client without a bucket gets the configured one at its first call.\<close>

lemma mem_run_first:
  assumes "mem_inv m" "client_bucket m c = None" "\<forall>(clk, d, n) \<in> set calls. int64 n"
  shows "fst (mem_run c calls m) = 0 \<or>
    (\<exists>clk n tb. (clk, c, n) \<in> set calls
      \<and> NewTokenBucket (clk 0) (BurstSize (mem_config m)) (TokensPerSecond (mem_config m)) = Ret tb
      \<and> fst (mem_run c calls m) = fst (tb_run (own_calls c calls) tb))"
  using assms
proof (induction calls arbitrary: m)
  case (Cons call calls)
  obtain clk d n where call: "call = (clk, d, n)" by (cases call)
  have n: "int64 n" using Cons.prems(3) by (simp add: call)
  note r = AllowN_refines [OF Cons.prems(1) n, of clk d]
  obtain m' res where s: "MemoryLimiter_AllowN clk d n m = (m', res)" by force
  show ?case
  proof (cases "d = c")
    case True
    obtain tb where tb: "NewTokenBucket (clk 0) (BurstSize (mem_config m)) (TokensPerSecond (mem_config m)) = Ret tb"
      using config_ok_new [OF mem_invD(1) [OF Cons.prems(1)]] by blast
    obtain ok tb' where a: "TokenBucket_AllowN (clk 2) n tb = (ok, tb')" by force
    have m': "res = Ret (ok, None)" "client_bucket m' c = Some tb'" "mem_inv m'"
      using r s by (simp_all add: True spec_AllowN_def Cons.prems(2) a tb)
    then have "fst (mem_run c calls m') = fst (tb_run (own_calls c calls) tb')"
      using mem_run_own [of m' c tb' calls] Cons.prems(3) by simp
    then have "fst (mem_run c (call # calls) m) = fst (tb_run (own_calls c (call # calls)) tb)"
      using m' s by (simp add: call True a case_prod_beta)
    then show ?thesis using tb by (auto simp: call True)
  next
    case False
    then have "client_bucket m' c = None" "mem_inv m'" "mem_config m' = mem_config m"
      using r Cons.prems(2) by (auto simp: s spec_AllowN_def split: option.splits outcome.splits prod.splits)
    moreover have "fst (mem_run c (call # calls) m) = fst (mem_run c calls m')"
      using False by (auto simp: call s split: prod.splits outcome.splits)
    ultimately show ?thesis
      using Cons.IH [of m'] Cons.prems(3) False by (fastforce simp: call)
  qed
qed simp



lemma NewTokenBucket_level:
  assumes "NewTokenBucket t cap rate = Ret tb" "int64 cap" "cap < 2 ^ 53"
  shows "exact_capacity tb" "lastRefill tb = t" "level tb = of_int cap" "capacity tb = cap" "refillRate tb = rate"
  using assms rnd_of_int [of cap] f64_of_int_int64 [of cap]
  by (auto simp: NewTokenBucket_def exact_capacity_def int64_def split: if_splits)

section \<open>Properties\<close>

text \<open>
  C7. The limiter implements the specification with one token bucket per client: on a state
  that satisfies the invariant \<open>AllowN\<close>, \<open>Tokens\<close>, \<open>SetLimit\<close>, \<open>Reset\<close> and the
  cleanup keep the invariant, return what the specification returns (the constructor's panic
  in \<open>SetLimit\<close> included), and change the clients' buckets as it does.
\<close>

theorem memory_limiter_refines:
  assumes "mem_inv m" "int64 n" "int64 b" "f64_rep r" "r \<noteq> NaN" "r \<noteq> PInf"
    and "int64 (- 2 * CleanupInterval (mem_config m))"
  shows "map_prod client_bucket id (MemoryLimiter_AllowN clk c n m) = spec_AllowN (mem_config m) clk c n (client_bucket m)
    \<and> map_prod client_bucket id (MemoryLimiter_Tokens clk c m) = spec_Tokens (mem_config m) clk c (client_bucket m)
    \<and> map_prod client_bucket id (MemoryLimiter_SetLimit clk c b r m) = spec_SetLimit clk c b r (client_bucket m)
    \<and> map_prod client_bucket id (MemoryLimiter_Reset clk c m) = ((client_bucket m)(c := None), Ret None)
    \<and> client_bucket (MemoryLimiter_cleanup now m) = (\<lambda>d.
        if idle_since (now - 2 * CleanupInterval (mem_config m)) m d then None else client_bucket m d)
    \<and> mem_inv (fst (MemoryLimiter_AllowN clk c n m)) \<and> mem_inv (fst (MemoryLimiter_Tokens clk c m))
    \<and> mem_inv (fst (MemoryLimiter_SetLimit clk c b r m)) \<and> mem_inv (fst (MemoryLimiter_Reset clk c m))
    \<and> mem_inv (MemoryLimiter_cleanup now m)"
proof -
  note r = AllowN_refines [OF assms(1,2), of clk c] Tokens_refines [OF assms(1), of clk c]
    SetLimit_refines [OF assms(1,3-6), of clk c] Reset_refines [OF assms(1), of clk c]
  note cl = cleanup_refines [OF assms(1,7), of now]
  show ?thesis using r cl(1) by (intro conjI ext prod_eqI cl(2)) simp_all
qed

definition demo_config :: limiter_config where
  "demo_config = \<lparr>TokensPerSecond = Fin 2, BurstSize = 3, CleanupInterval = 60 * second\<rparr>"

lemma demo_config_ok: "config_ok demo_config"
  using power_strict_increasing [of 1 1024 "2::rat"]
  by (simp add: config_ok_def demo_config_def int64_def f64_simps)

lemma demo_limiter_ok: "mem_inv (NewMemoryLimiter demo_config)"
  using NewMemoryLimiter_inv [OF demo_config_ok] by simp

theorem memory_limiter_refines_witness:
  "snd (MemoryLimiter_AllowN (\<lambda>i. 0) ''a'' 2 (NewMemoryLimiter demo_config)) = Ret (True, None)"
proof -
  have "f64_rep (Fin 2)" using demo_config_ok by (simp add: config_ok_def demo_config_def)
  then have "map_prod client_bucket id (MemoryLimiter_AllowN (\<lambda>i. 0) ''a'' 2 (NewMemoryLimiter demo_config)) =
      spec_AllowN (mem_config (NewMemoryLimiter demo_config)) (\<lambda>i. 0) ''a'' 2 (client_bucket (NewMemoryLimiter demo_config))"
    using memory_limiter_refines [OF demo_limiter_ok, of 2 1 "Fin 2" "\<lambda>i. 0" "''a''"]
    by (simp add: int64_def NewMemoryLimiter_def demo_config_def)
  from arg_cong [OF this, of snd] show ?thesis
    using NewMemoryLimiter_inv [OF demo_config_ok]
    by (simp add: spec_AllowN_def NewMemoryLimiter_def demo_config_def NewTokenBucket_def tb_eval)
qed



text \<open>
  C37. Eviction restores a full bucket: a client whose entry has been idle for more than
  twice the cleanup interval loses it at the next tick, whatever its bucket held and
  whatever limit \<open>SetLimit\<close> had given it, and its next request is judged by a full bucket
  of the default size; a client used since is untouched.
\<close>

theorem memory_limiter_eviction:
  assumes "mem_inv m" "int64 (- 2 * CleanupInterval (mem_config m))" "BurstSize (mem_config m) < 2 ^ 53"
    and "idle_since (now - 2 * CleanupInterval (mem_config m)) m c" "0 < n" "n \<le> BurstSize (mem_config m)"
    and "\<not> idle_since (now - 2 * CleanupInterval (mem_config m)) m d"
  shows "snd (MemoryLimiter_Tokens clk c (MemoryLimiter_cleanup now m)) = Ret (BurstSize (mem_config m), None)
    \<and> snd (MemoryLimiter_AllowN clk c n (MemoryLimiter_cleanup now m)) = Ret (True, None)
    \<and> client_bucket (MemoryLimiter_cleanup now m) d = client_bucket m d"
proof -
  let ?m = "MemoryLimiter_cleanup now m"
  have inv: "mem_inv ?m" and cb: "client_bucket ?m c = None" "client_bucket ?m d = client_bucket m d"
    using cleanup_refines [OF assms(1,2), of now] assms(4,7) by simp_all
  have cfg: "mem_config ?m = mem_config m" by (simp add: MemoryLimiter_cleanup_def Let_def)
  have n: "int64 n" using assms(3,5,6) by (simp add: int64_def)
  obtain tb where tb: "NewTokenBucket (clk 0) (BurstSize (mem_config m)) (TokensPerSecond (mem_config m)) = Ret tb"
    "tb_inv tb" using config_ok_new [OF mem_invD(1) [OF assms(1)]] by blast
  have "int64 (BurstSize (mem_config m))" using mem_invD(1) [OF assms(1)] by (simp add: config_ok_def)
  note l = NewTokenBucket_level [OF tb(1) this assms(3)]
  have "of_int n \<le> level tb" using assms(6) by (simp add: l(3))
  also have "\<dots> \<le> refilled (clk 2) tb" using tb(2) by (rule refilled_bounds)
  finally have "fst (TokenBucket_AllowN (clk 2) n tb)"
    using AllowN_valid [OF tb(2) l(1) assms(5) n, of "clk 2"] by simp
  then show ?thesis
    using AllowN_refines [OF inv n, of clk c] Tokens_refines [OF inv, of clk c] cb
    by (simp add: spec_AllowN_def spec_Tokens_def cfg tb split: prod.splits)
qed

definition drained_limiter :: memory_limiter where
  "drained_limiter = fst (MemoryLimiter_AllowN (\<lambda>i. 0) ''a'' 3 (NewMemoryLimiter demo_config))"

theorem memory_limiter_eviction_witness:
  "snd (MemoryLimiter_AllowN (\<lambda>i. 121 * second) ''a'' 3 (MemoryLimiter_cleanup (121 * second) drained_limiter))
     = Ret (True, None)"
proof -
  have inv: "mem_inv drained_limiter"
    using AllowN_refines [OF demo_limiter_ok, of 3 "\<lambda>i. 0" "''a''"] by (simp add: drained_limiter_def int64_def)
  have d: "drained_limiter = \<lparr>buckets = [''a'' \<mapsto> \<lparr>bucket = 0, lastUsed = 0\<rparr>], mem_config = demo_config,
      heap = [0 \<mapsto> drained_bucket], next_addr = 1, stopped = False\<rparr>"
    by (simp add: drained_limiter_def MemoryLimiter_AllowN_def getOrCreateBucket_def NewMemoryLimiter_def
        demo_config_def NewTokenBucket_def alloc_def on_bucket_def tb_eval drained_bucket_def demo_bucket_def)
  show ?thesis
    using memory_limiter_eviction [OF inv, of "121 * second" "''a''" 3 "''b''" "\<lambda>i. 121 * second"]
    by (simp add: d demo_config_def int64_def idle_since_def)
qed

end
