(* ===== verification/Circuit_Breaker.thy ===== *)
theory Circuit_Breaker
  imports Gateway_Prelude
begin

text \<open>
  The circuit breaker of \<open>internal/handler/circuit_breaker.go\<close>. Every method holds the
  mutex throughout, so it is one step on the record. The abstract specification is a
  three-state automaton without a failure count outside the closed state; the locale
  \<open>breaker\<close> states it as the contract the transport relies on, and the interpretation at
  the end discharges it for the code's operations. The last section is the system of many
  requests that share one breaker, as a step relation.
\<close>

section \<open>The breaker and its operations\<close>

datatype circuit_state = StateClosed | StateHalfOpen | StateOpen

record circuit_breaker =
  state :: circuit_state
  failures :: int
  threshold :: int
  cooldown :: duration
  lastStateChange :: time

definition NewCircuitBreaker :: "int \<Rightarrow> duration \<Rightarrow> circuit_breaker" where
  "NewCircuitBreaker thr cool =
     \<lparr>state = StateClosed, failures = 0, threshold = thr, cooldown = cool, lastStateChange = zero_time\<rparr>"

definition CircuitBreaker_Allow :: "time \<Rightarrow> circuit_breaker \<Rightarrow> bool \<times> circuit_breaker" where
  "CircuitBreaker_Allow now cb =
     (if state cb = StateOpen then
        if cooldown cb < time_sub now (lastStateChange cb)
        then (True, cb\<lparr>state := StateHalfOpen, lastStateChange := now\<rparr>)
        else (False, cb)
      else if state cb = StateHalfOpen then (False, cb)
      else (True, cb))"

definition CircuitBreaker_RecordResult :: "time \<Rightarrow> bool \<Rightarrow> circuit_breaker \<Rightarrow> circuit_breaker" where
  "CircuitBreaker_RecordResult now success cb =
     (if success then cb\<lparr>failures := 0, state := StateClosed\<rparr>
      else
        let cb' = cb\<lparr>failures := wrap64 (failures cb + 1)\<rparr> in
        if state cb' = StateHalfOpen \<or> threshold cb' \<le> failures cb'
        then cb'\<lparr>state := StateOpen, lastStateChange := now\<rparr>
        else cb')"

section \<open>The abstract automaton\<close>

datatype phase = Closed int | Probing | Tripped time

fun spec_allow :: "duration \<Rightarrow> time \<Rightarrow> phase \<Rightarrow> bool \<times> phase" where
  "spec_allow cool now (Closed k) = (True, Closed k)"
| "spec_allow cool now Probing = (False, Probing)"
| "spec_allow cool now (Tripped t) =
     (if cool < time_sub now t then (True, Probing) else (False, Tripped t))"

fun spec_record :: "int \<Rightarrow> time \<Rightarrow> bool \<Rightarrow> phase \<Rightarrow> phase" where
  "spec_record thr now True p = Closed 0"
| "spec_record thr now False (Closed k) = (if thr \<le> k + 1 then Tripped now else Closed (k + 1))"
| "spec_record thr now False Probing = Tripped now"
| "spec_record thr now False (Tripped t) = Tripped now"

datatype cb_event = EvAllow time | EvRecord time bool

text \<open>A run of a breaker, the code's or the abstract one: the answers of \<open>Allow\<close> in order.\<close>

fun breaker_run :: "(time \<Rightarrow> 's \<Rightarrow> bool \<times> 's) \<Rightarrow> (time \<Rightarrow> bool \<Rightarrow> 's \<Rightarrow> 's) \<Rightarrow> cb_event list \<Rightarrow> 's
    \<Rightarrow> bool list \<times> 's" where
  "breaker_run al rec [] s = ([], s)"
| "breaker_run al rec (EvAllow now # es) s =
     (let (b, s') = al now s; (bs, s'') = breaker_run al rec es s' in (b # bs, s''))"
| "breaker_run al rec (EvRecord now ok # es) s = breaker_run al rec es (rec now ok s)"

text \<open>
  The contract. \<open>used s\<close> counts the failures stored so far, which are bounded by the range
  of a Go \<open>int\<close>.
\<close>

locale breaker =
  fixes allow :: "time \<Rightarrow> 's \<Rightarrow> bool \<times> 's"
    and record_result :: "time \<Rightarrow> bool \<Rightarrow> 's \<Rightarrow> 's"
    and phase_of :: "'s \<Rightarrow> phase"
    and thr :: "'s \<Rightarrow> int" and cool :: "'s \<Rightarrow> duration"
    and inv :: "'s \<Rightarrow> bool" and used :: "'s \<Rightarrow> int"
  assumes allow_phase: "inv s \<Longrightarrow>
      (fst (allow now s), phase_of (snd (allow now s))) = spec_allow (cool s) now (phase_of s)"
    and record_phase: "inv s \<Longrightarrow> used s < 2 ^ 63 - 1 \<Longrightarrow>
      phase_of (record_result now ok s) = spec_record (thr s) now ok (phase_of s)"
    and allow_inv: "inv s \<Longrightarrow> inv (snd (allow now s))"
    and record_inv: "inv s \<Longrightarrow> used s < 2 ^ 63 - 1 \<Longrightarrow> inv (record_result now ok s)"
    and allow_frame: "thr (snd (allow now s)) = thr s" "cool (snd (allow now s)) = cool s"
      "used (snd (allow now s)) = used s"
    and record_frame: "thr (record_result now ok s) = thr s" "cool (record_result now ok s) = cool s"
    and record_used: "inv s \<Longrightarrow> used s < 2 ^ 63 - 1 \<Longrightarrow> used (record_result now ok s) \<le> used s + 1"
    and inv_thr: "inv s \<Longrightarrow> 1 \<le> thr s"
begin

lemma run_refines:
  "inv s \<Longrightarrow> used s + int (length es) < 2 ^ 63 \<Longrightarrow>
     breaker_run (spec_allow (cool s)) (spec_record (thr s)) es (phase_of s)
       = (fst (breaker_run allow record_result es s), phase_of (snd (breaker_run allow record_result es s)))"
proof (induction es arbitrary: s)
  case (Cons e es)
  show ?case
  proof (cases e)
    case (EvAllow now)
    obtain b s' where a: "allow now s = (b, s')" by force
    then have "spec_allow (cool s) now (phase_of s) = (b, phase_of s')"
      using allow_phase [OF Cons.prems(1), of now] by simp
    moreover have "inv s'" "thr s' = thr s" "cool s' = cool s" "used s' = used s"
      using allow_inv [OF Cons.prems(1), of now] allow_frame [of now s] a by simp_all
    ultimately show ?thesis using Cons.IH [of s'] Cons.prems(2) a
      by (auto simp: EvAllow split: prod.splits)
  next
    case (EvRecord now ok)
    have room: "used s < 2 ^ 63 - 1" using Cons.prems(2) by simp
    show ?thesis
      using Cons.IH [of "record_result now ok s"] Cons.prems(2) record_phase [OF Cons.prems(1) room]
        record_inv [OF Cons.prems(1) room] record_used [OF Cons.prems(1) room, of now ok]
      by (simp add: EvRecord record_frame)
  qed
qed simp

text \<open>In the probing phase, and so between two results, no request is admitted.\<close>

lemma probing_refuses:
  "inv s \<Longrightarrow> phase_of s = Probing \<Longrightarrow>
     fst (breaker_run allow record_result (map EvAllow ts) s) = replicate (length ts) False
     \<and> phase_of (snd (breaker_run allow record_result (map EvAllow ts) s)) = Probing"
proof (induction ts arbitrary: s)
  case (Cons t ts)
  obtain b s' where a: "allow t s = (b, s')" by force
  have "b = False" "phase_of s' = Probing" "inv s'"
    using allow_phase [OF Cons.prems(1), of t] allow_inv [OF Cons.prems(1), of t] Cons.prems(2) a by auto
  then show ?case using Cons.IH [of s'] a by (auto split: prod.splits)
qed simp

lemma single_probe:
  "inv s \<Longrightarrow> phase_of s = Tripped t \<Longrightarrow>
     length (filter (\<lambda>b. b) (fst (breaker_run allow record_result (map EvAllow ts) s))) \<le> 1"
proof (induction ts arbitrary: s)
  case (Cons u ts)
  obtain b s' where a: "allow u s = (b, s')" by force
  have "phase_of s' = (if b then Probing else Tripped t)" "inv s'"
    using allow_phase [OF Cons.prems(1), of u] allow_inv [OF Cons.prems(1), of u] Cons.prems(2) a
    by (auto split: if_splits)
  then show ?case
    using Cons.IH [of s'] probing_refuses [of s' ts] a by (auto split: prod.splits)
qed simp

end

section \<open>The code's breaker satisfies the contract\<close>

definition cb_inv :: "circuit_breaker \<Rightarrow> bool" where
  "cb_inv cb \<longleftrightarrow> 1 \<le> threshold cb \<and> int64 (threshold cb) \<and> 0 \<le> failures cb
     \<and> (if state cb = StateClosed then failures cb < threshold cb else threshold cb \<le> failures cb)"

definition cb_phase :: "circuit_breaker \<Rightarrow> phase" where
  "cb_phase cb = (case state cb of StateClosed \<Rightarrow> Closed (failures cb)
     | StateHalfOpen \<Rightarrow> Probing | StateOpen \<Rightarrow> Tripped (lastStateChange cb))"

lemma NewCircuitBreaker_inv: "1 \<le> thr \<Longrightarrow> int64 thr \<Longrightarrow> cb_inv (NewCircuitBreaker thr cool)"
  by (simp add: cb_inv_def NewCircuitBreaker_def)

lemma failure_no_wrap: "cb_inv cb \<Longrightarrow> failures cb < 2 ^ 63 - 1 \<Longrightarrow> wrap64 (failures cb + 1) = failures cb + 1"
  by (intro wrap64_id) (simp add: cb_inv_def int64_def)

interpretation cb: breaker CircuitBreaker_Allow CircuitBreaker_RecordResult cb_phase
  threshold cooldown cb_inv failures
proof unfold_locales
  fix cb now ok
  assume inv: "cb_inv cb"
  show "(fst (CircuitBreaker_Allow now cb), cb_phase (snd (CircuitBreaker_Allow now cb)))
      = spec_allow (cooldown cb) now (cb_phase cb)"
    by (cases "state cb") (auto simp: CircuitBreaker_Allow_def cb_phase_def)
  show "cb_inv (snd (CircuitBreaker_Allow now cb))"
    using inv by (auto simp: CircuitBreaker_Allow_def cb_inv_def split: if_splits)
  show "1 \<le> threshold cb" using inv by (simp add: cb_inv_def)
  assume room: "failures cb < 2 ^ 63 - 1"
  note w = failure_no_wrap [OF inv room]
  show "cb_phase (CircuitBreaker_RecordResult now ok cb) = spec_record (threshold cb) now ok (cb_phase cb)"
    using inv by (cases ok; cases "state cb")
      (auto simp: CircuitBreaker_RecordResult_def cb_phase_def Let_def w cb_inv_def)
  show "cb_inv (CircuitBreaker_RecordResult now ok cb)"
    using inv by (auto simp: CircuitBreaker_RecordResult_def Let_def w cb_inv_def split: if_splits)
  show "failures (CircuitBreaker_RecordResult now ok cb) \<le> failures cb + 1"
    using inv by (auto simp: CircuitBreaker_RecordResult_def Let_def w cb_inv_def)
qed (auto simp: CircuitBreaker_Allow_def CircuitBreaker_RecordResult_def Let_def)


section \<open>Properties\<close>

text \<open>
  C8. The breaker refines the three-state automaton: on every sequence of \<open>Allow\<close> and
  \<open>RecordResult\<close> calls, at any clock readings, a new breaker gives the answers of the
  automaton that is closed with a count of consecutive failures below the threshold, trips
  when the count reaches it, admits one probe once the cooldown has passed, and closes on
  any success.
\<close>

theorem circuit_breaker_refines_automaton:
  assumes "1 \<le> thr" "int64 thr" "int (length es) < 2 ^ 63"
  shows "breaker_run (spec_allow cool) (spec_record thr) es (Closed 0) =
    (fst (breaker_run CircuitBreaker_Allow CircuitBreaker_RecordResult es (NewCircuitBreaker thr cool)),
     cb_phase (snd (breaker_run CircuitBreaker_Allow CircuitBreaker_RecordResult es
       (NewCircuitBreaker thr cool))))"
  using cb.run_refines [OF NewCircuitBreaker_inv [OF assms(1,2)], of cool es] assms(3)
  by (simp add: NewCircuitBreaker_def cb_phase_def)

definition demo_events :: "cb_event list" where
  "demo_events = [EvAllow 0, EvRecord 1 False, EvAllow 2, EvRecord 3 False, EvAllow 4, EvAllow 5000000004,
     EvAllow 5000000005, EvRecord 5000000006 True, EvAllow 5000000007]"

theorem circuit_breaker_refines_automaton_witness:
  "breaker_run (spec_allow (5 * second)) (spec_record 2) demo_events (Closed 0) =
    (fst (breaker_run CircuitBreaker_Allow CircuitBreaker_RecordResult demo_events
        (NewCircuitBreaker 2 (5 * second))),
     cb_phase (snd (breaker_run CircuitBreaker_Allow CircuitBreaker_RecordResult demo_events
        (NewCircuitBreaker 2 (5 * second)))))
   \<and> fst (breaker_run CircuitBreaker_Allow CircuitBreaker_RecordResult demo_events
        (NewCircuitBreaker 2 (5 * second))) = [True, True, False, True, False, True]"
proof
  show "breaker_run (spec_allow (5 * second)) (spec_record 2) demo_events (Closed 0) =
    (fst (breaker_run CircuitBreaker_Allow CircuitBreaker_RecordResult demo_events
        (NewCircuitBreaker 2 (5 * second))),
     cb_phase (snd (breaker_run CircuitBreaker_Allow CircuitBreaker_RecordResult demo_events
        (NewCircuitBreaker 2 (5 * second)))))"
    by (rule circuit_breaker_refines_automaton) (simp_all add: int64_def demo_events_def)
  show "fst (breaker_run CircuitBreaker_Allow CircuitBreaker_RecordResult demo_events
        (NewCircuitBreaker 2 (5 * second))) = [True, True, False, True, False, True]"
    by code_simp
qed

text \<open>
  A tripped breaker admits at most one request until a result is recorded, whatever the
  number and the times of the \<open>Allow\<close> calls, and none at all within the cooldown.
\<close>

theorem circuit_breaker_single_probe:
  assumes "cb_inv cb" "state cb = StateOpen"
  shows "length (filter (\<lambda>b. b) (fst (breaker_run CircuitBreaker_Allow CircuitBreaker_RecordResult
      (map EvAllow ts) cb))) \<le> 1
    \<and> (time_sub now (lastStateChange cb) \<le> cooldown cb \<longrightarrow> CircuitBreaker_Allow now cb = (False, cb))"
  using cb.single_probe [OF assms(1), of "lastStateChange cb" ts] assms(2)
  by (simp add: cb_phase_def CircuitBreaker_Allow_def)

definition tripped_breaker :: circuit_breaker where
  "tripped_breaker = (NewCircuitBreaker 5 (5 * second))\<lparr>state := StateOpen, failures := 5, lastStateChange := 0\<rparr>"

theorem circuit_breaker_single_probe_witness:
  "length (filter (\<lambda>b. b) (fst (breaker_run CircuitBreaker_Allow CircuitBreaker_RecordResult
      (map EvAllow [1, 6000000000, 7000000000]) tripped_breaker))) \<le> 1
    \<and> CircuitBreaker_Allow 5000000000 tripped_breaker = (False, tripped_breaker)
    \<and> fst (breaker_run CircuitBreaker_Allow CircuitBreaker_RecordResult
      (map EvAllow [1, 6000000000, 7000000000]) tripped_breaker) = [False, True, False]"
proof -
  have "cb_inv tripped_breaker" "state tripped_breaker = StateOpen"
    by (simp_all add: tripped_breaker_def cb_inv_def NewCircuitBreaker_def int64_def)
  note sp = circuit_breaker_single_probe [OF this, of "[1, 6000000000, 7000000000]" 5000000000]
  have "time_sub 5000000000 (lastStateChange tripped_breaker) \<le> cooldown tripped_breaker"
    by (simp add: tripped_breaker_def NewCircuitBreaker_def time_sub_def)
  moreover have "fst (breaker_run CircuitBreaker_Allow CircuitBreaker_RecordResult
      (map EvAllow [1, 6000000000, 7000000000]) tripped_breaker) = [False, True, False]"
    by code_simp
  ultimately show ?thesis using sp by blast
qed

end
