(* ===== verification/Http_Model.thy ===== *)
theory Http_Model
  imports Gateway_Prelude
begin

text \<open>
  What the gateway uses of \<open>net/http\<close>: header maps with canonical keys, requests with a
  body that can be read once and perhaps rewound, responses, and the server's response
  writer as a sequence of calls. Strings are Go strings, that is byte sequences.
\<close>

section \<open>Bytes\<close>

abbreviation byte_of :: "char \<Rightarrow> nat" where "byte_of c \<equiv> of_char c"

definition is_upper :: "char \<Rightarrow> bool" where
  "is_upper c \<longleftrightarrow> 65 \<le> byte_of c \<and> byte_of c \<le> 90"

definition is_lower :: "char \<Rightarrow> bool" where
  "is_lower c \<longleftrightarrow> 97 \<le> byte_of c \<and> byte_of c \<le> 122"

definition is_digit :: "char \<Rightarrow> bool" where
  "is_digit c \<longleftrightarrow> 48 \<le> byte_of c \<and> byte_of c \<le> 57"

definition ascii_lower :: "char \<Rightarrow> char" where
  "ascii_lower c = (if is_upper c then char_of (byte_of c + 32) else c)"

definition ascii_upper :: "char \<Rightarrow> char" where
  "ascii_upper c = (if is_lower c then char_of (byte_of c - 32) else c)"

section \<open>Headers\<close>

text \<open>
  \<open>Header.Get\<close> and \<open>Header.Set\<close> canonicalise the key: first letter and letters after a
  hyphen in upper case, the rest in lower case; a key with a byte that no token has is left
  as it is.
\<close>

definition token_byte :: "char \<Rightarrow> bool" where
  "token_byte c \<longleftrightarrow> is_upper c \<or> is_lower c \<or> is_digit c \<or> c \<in> set ''!#$%&*+-.^_`|~'' \<or> byte_of c = 39"

fun canonical_rest :: "bool \<Rightarrow> string \<Rightarrow> string" where
  "canonical_rest up [] = []"
| "canonical_rest up (c # cs) =
     (if up then ascii_upper c else ascii_lower c) # canonical_rest (c = CHR ''-'') cs"

definition canonical_key :: "string \<Rightarrow> string" where
  "canonical_key k = (if list_all token_byte k then canonical_rest True k else k)"

type_synonym header = "string \<rightharpoonup> string list"

definition header_get :: "header \<Rightarrow> string \<Rightarrow> string" where
  "header_get h k = (case h (canonical_key k) of Some (v # _) \<Rightarrow> v | _ \<Rightarrow> [])"

definition header_set :: "header \<Rightarrow> string \<Rightarrow> string \<Rightarrow> header" where
  "header_set h k v = h(canonical_key k \<mapsto> [v])"

text \<open>\<open>Header.Del\<close>, and the copy of one header map onto another, which adds the values.\<close>

definition header_del :: "header \<Rightarrow> string \<Rightarrow> header" where
  "header_del h k = h(canonical_key k := None)"

definition header_copy :: "header \<Rightarrow> header \<Rightarrow> header" where
  "header_copy dst src = (\<lambda>k. case src k of None \<Rightarrow> dst k
     | Some vs \<Rightarrow> (case dst k of None \<Rightarrow> Some vs | Some us \<Rightarrow> Some (us @ vs)))"

lemma header_get_set [simp]: "header_get (header_set h k v) k = v"
  by (simp add: header_get_def header_set_def)

lemma header_get_set_other:
  "canonical_key k \<noteq> canonical_key k' \<Longrightarrow> header_get (header_set h k v) k' = header_get h k'"
  by (simp add: header_get_def header_set_def)

section \<open>Requests and responses\<close>

text \<open>
  A body delivers \<open>content\<close> and then ends, or fails with \<open>read_err\<close>; it is \<open>fresh\<close>
  until something has read it. \<open>getBody i\<close> is what the \<open>i\<close>-th call of
  \<open>Request.GetBody\<close> returns. A \<open>None\<close> stands for Go's nil.
\<close>

record body =
  content :: string
  read_err :: "go_error option"
  fresh :: bool

record http_request =
  req_method :: string
  req_path :: string
  req_query :: string
  req_header :: header
  req_host :: string
  remoteAddr :: string
  req_body :: "body option"
  getBody :: "(nat \<Rightarrow> go_error + body) option"

record http_response =
  resp_status :: int
  resp_header :: header
  resp_body :: "string option"

definition mem_body :: "string \<Rightarrow> body" where
  "mem_body bs = \<lparr>content = bs, read_err = None, fresh = True\<rparr>"

definition consume :: "http_request \<Rightarrow> http_request" where
  "consume req = req\<lparr>req_body := map_option (\<lambda>b. b\<lparr>fresh := False\<rparr>) (req_body req)\<rparr>"

end
