(* ===== verification/Resilient_Transport.thy ===== *)
theory Resilient_Transport
  imports Circuit_Breaker Http_Model
begin

text \<open>
  The transport of \<open>internal/handler/circuit_breaker.go\<close>: breaker, retries with a wait and
  a rewound body around a base \<open>http.RoundTripper\<close>. The base transport and the ends of the
  waits are not code of the repository; they are the parameters of \<open>rt_env\<close>. The result
  of a call carries the trace of what the loop did: what was sent, which response bodies were
  closed, how long it waited.
\<close>

section \<open>The transport\<close>

text \<open>
  \<open>base i req\<close> is what attempt \<open>i\<close> of the base transport returns on the request as it
  stands then, a Go pair of response and error; \<open>wait_end i\<close> is \<open>Some e\<close> if the request
  context was done (with error \<open>e\<close>) when the wait before attempt \<open>i\<close> ended.
\<close>

record rt_env =
  base :: "nat \<Rightarrow> http_request \<Rightarrow> http_response option \<times> go_error option"
  wait_end :: "nat \<Rightarrow> go_error option"

datatype rt_event =
    Sent nat "body option"
  | Got nat "http_response option" "go_error option"
  | Waited duration
  | ClosedResp nat
  | ClosedReqBody

datatype rt_return =
    Return "http_response option" "go_error option"
  | NilDeref

record rt_result =
  ret :: rt_return
  recorded :: "bool option"
  trace :: "rt_event list"

definition isIdempotent :: "string \<Rightarrow> bool" where
  "isIdempotent m \<longleftrightarrow> m = ''GET'' \<or> m = ''HEAD'' \<or> m = ''PUT'' \<or> m = ''DELETE''"

definition emit :: "rt_event list \<Rightarrow> rt_result \<Rightarrow> rt_result" where
  "emit es r = r\<lparr>trace := es @ trace r\<rparr>"

definition rewind :: "nat \<Rightarrow> http_request \<Rightarrow> http_request" where
  "rewind attempt req =
     (case getBody req of
        None \<Rightarrow> req
      | Some gb \<Rightarrow> (case gb attempt of Inl _ \<Rightarrow> req | Inr b \<Rightarrow> req\<lparr>req_body := Some b\<rparr>))"

definition resp_has_body :: "http_response option \<Rightarrow> bool" where
  "resp_has_body r = (case r of None \<Rightarrow> False | Some resp \<Rightarrow> resp_body resp \<noteq> None)"

text \<open>One pass of the loop body after the wait, and the loop over the remaining attempts.\<close>

primrec rt_attempts :: "rt_env \<Rightarrow> nat \<Rightarrow> nat \<Rightarrow> http_request
    \<Rightarrow> http_response option \<times> go_error option \<Rightarrow> rt_result" where
  "rt_attempts env maxRetries 0 req prev =
     \<lparr>ret = Return (fst prev) (snd prev), recorded = Some False, trace = []\<rparr>"
| "rt_attempts env maxRetries (Suc k) req prev =
     (let attempt = maxRetries - Suc k in
      case (if 0 < attempt then wait_end env attempt else None) of
        Some e \<Rightarrow> \<lparr>ret = Return None (Some e), recorded = None, trace = []\<rparr>
      | None \<Rightarrow>
          let req' = (if 0 < attempt then rewind attempt req else req);
              (resp, err) = base env attempt req';
              pre = (if 0 < attempt then [Waited (int attempt * 50 * millisecond)] else [])
                      @ [Sent attempt (req_body req'), Got attempt resp err]
          in
          if err = None \<and> resp = None then \<lparr>ret = NilDeref, recorded = None, trace = pre\<rparr>
          else if err = None \<and> resp_status (the resp) < 500
            then \<lparr>ret = Return resp None, recorded = Some True, trace = pre\<rparr>
            else
              let closes = (if attempt < maxRetries - 1 \<and> resp_has_body resp then [ClosedResp attempt] else [])
              in emit (pre @ closes) (rt_attempts env maxRetries k (consume req') (resp, err)))"

definition rt_call :: "rt_env \<Rightarrow> http_request \<Rightarrow> rt_result" where
  "rt_call env req =
     (if isIdempotent (req_method req) then
        case req_body req of
          Some b \<Rightarrow>
            (if getBody req = None then
               case read_err b of
                 Some e \<Rightarrow> \<lparr>ret = Return None (Some e), recorded = None, trace = []\<rparr>
               | None \<Rightarrow>
                   let bodyBytes = content b;
                       req' = req\<lparr>getBody := Some (\<lambda>_. Inr (mem_body bodyBytes)),
                                  req_body := Some (mem_body bodyBytes)\<rparr>
                   in emit [ClosedReqBody] (rt_attempts env 3 3 req' (None, None))
             else rt_attempts env 3 3 req (None, None))
        | None \<Rightarrow> rt_attempts env 3 3 req (None, None)
      else rt_attempts env 1 1 req (None, None))"

definition breaker_open_error :: go_error where
  "breaker_open_error = ErrorString ''circuit breaker is open''"

text \<open>
  \<open>RoundTrip\<close>: the breaker is asked at time \<open>t0\<close> and told the result at \<open>t1\<close>. Between the
  two, other requests may use it; \<open>meanwhile\<close> is what they do to it.
\<close>

definition RoundTrip :: "rt_env \<Rightarrow> time \<Rightarrow> (circuit_breaker \<Rightarrow> circuit_breaker) \<Rightarrow> time \<Rightarrow> http_request
    \<Rightarrow> circuit_breaker \<Rightarrow> rt_result \<times> circuit_breaker" where
  "RoundTrip env t0 meanwhile t1 req cb =
     (case CircuitBreaker_Allow t0 cb of
        (False, cb') \<Rightarrow> (\<lparr>ret = Return None (Some breaker_open_error), recorded = None, trace = []\<rparr>, cb')
      | (True, cb') \<Rightarrow>
          let r = rt_call env req in
          (r, case recorded r of
                None \<Rightarrow> meanwhile cb'
              | Some ok \<Rightarrow> CircuitBreaker_RecordResult t1 ok (meanwhile cb')))"


section \<open>One attempt\<close>

definition prelude_events :: "nat \<Rightarrow> body option \<Rightarrow> http_response option \<Rightarrow> go_error option \<Rightarrow> rt_event list" where
  "prelude_events a b resp err =
     (if 0 < a then [Waited (int a * 50 * millisecond)] else []) @ [Sent a b, Got a resp err]"

definition attempt_ok :: "http_response option \<Rightarrow> go_error option \<Rightarrow> bool" where
  "attempt_ok resp err \<longleftrightarrow> err = None \<and> (\<exists>r. resp = Some r \<and> resp_status r < 500)"

lemma rt_attempts_step:
  assumes "a = m - Suc k" "(if 0 < a then wait_end env a else None) = None"
    and "req' = (if 0 < a then rewind a req else req)" "base env a req' = (resp, err)"
  shows "rt_attempts env m (Suc k) req prev =
    (if err = None \<and> resp = None
     then \<lparr>ret = NilDeref, recorded = None, trace = prelude_events a (req_body req') resp err\<rparr>
     else if attempt_ok resp err
     then \<lparr>ret = Return resp None, recorded = Some True, trace = prelude_events a (req_body req') resp err\<rparr>
     else emit (prelude_events a (req_body req') resp err
            @ (if a < m - 1 \<and> resp_has_body resp then [ClosedResp a] else []))
          (rt_attempts env m k (consume req') (resp, err)))"
proof -
  have ok: "attempt_ok resp err \<longleftrightarrow> err = None \<and> resp_status (the resp) < 500" if "resp \<noteq> None"
    using that by (auto simp: attempt_ok_def)
  have ok': "\<not> attempt_ok None err" by (simp add: attempt_ok_def)
  note eqs = assms(2-4) [unfolded assms(1)]
  show ?thesis
    unfolding rt_attempts.simps(2) Let_def assms(1) eqs(1) option.case eqs(2) [symmetric] eqs(3)
      prod.case prelude_events_def
    using ok ok' by (cases resp) simp_all
qed

text \<open>The four ways an attempt ends, as a case rule for the loop.\<close>

lemma rt_attempts_cases:
  fixes m k
  defines a: "a \<equiv> m - Suc k"
  obtains
    (cancelled) e where "0 < a" "wait_end env a = Some e"
      "rt_attempts env m (Suc k) req prev = \<lparr>ret = Return None (Some e), recorded = None, trace = []\<rparr>"
  | (nilderef) "rt_attempts env m (Suc k) req prev =
      \<lparr>ret = NilDeref, recorded = None,
       trace = prelude_events a (req_body (if 0 < a then rewind a req else req)) None None\<rparr>"
  | (success) resp where "attempt_ok resp None"
      "rt_attempts env m (Suc k) req prev =
        \<lparr>ret = Return resp None, recorded = Some True,
         trace = prelude_events a (req_body (if 0 < a then rewind a req else req)) resp None\<rparr>"
  | (failed) resp err where "\<not> attempt_ok resp err" "resp \<noteq> None \<or> err \<noteq> None"
      "rt_attempts env m (Suc k) req prev =
        emit (prelude_events a (req_body (if 0 < a then rewind a req else req)) resp err
            @ (if a < m - 1 \<and> resp_has_body resp then [ClosedResp a] else []))
          (rt_attempts env m k (consume (if 0 < a then rewind a req else req)) (resp, err))"
proof (cases "if 0 < a then wait_end env a else None")
  case (Some e)
  then have "0 < a" "wait_end env a = Some e" by (simp_all split: if_splits)
  moreover from this have
    "rt_attempts env m (Suc k) req prev = \<lparr>ret = Return None (Some e), recorded = None, trace = []\<rparr>"
    by (simp add: a Let_def)
  ultimately show ?thesis by (rule cancelled)
next
  case None
  obtain resp err where b: "base env a (if 0 < a then rewind a req else req) = (resp, err)" by force
  note step = rt_attempts_step [OF meta_eq_to_obj_eq [OF a] None refl b, of prev]
  consider (n) "err = None \<and> resp = None" | (o) "attempt_ok resp err"
    | (f) "\<not> attempt_ok resp err" "resp \<noteq> None \<or> err \<noteq> None" by blast
  then show ?thesis
  proof cases
    case n
    then show ?thesis using step by (intro nilderef) auto
  next
    case o
    then have "err = None" "resp \<noteq> None" by (auto simp: attempt_ok_def)
    then show ?thesis using step o by (intro success [of resp]) auto
  next
    case f
    then show ?thesis using step by (intro failed [of resp err]) auto
  qed
qed

declare rt_attempts.simps(2) [simp del]

lemma emit_simps [simp]:
  "ret (emit es r) = ret r" "recorded (emit es r) = recorded r" "trace (emit es r) = es @ trace r"
  by (simp_all add: emit_def)


section \<open>The loop\<close>

fun sents :: "rt_event list \<Rightarrow> (nat \<times> body option) list" where
  "sents [] = []"
| "sents (Sent i b # es) = (i, b) # sents es"
| "sents (e # es) = sents es"

fun waits :: "rt_event list \<Rightarrow> duration list" where
  "waits [] = []"
| "waits (Waited d # es) = d # waits es"
| "waits (e # es) = waits es"

lemma sents_append [simp]: "sents (xs @ ys) = sents xs @ sents ys"
  by (induction xs rule: sents.induct) auto

lemma waits_append [simp]: "waits (xs @ ys) = waits xs @ waits ys"
  by (induction xs rule: waits.induct) auto

lemma prelude_proj [simp]:
  "sents (prelude_events a b resp err) = [(a, b)]"
  "waits (prelude_events a b resp err) = (if 0 < a then [int a * 50 * millisecond] else [])"
  "Got i r e \<in> set (prelude_events a b resp err) \<longleftrightarrow> i = a \<and> r = resp \<and> e = err"
  "ClosedResp i \<notin> set (prelude_events a b resp err)"
  "sents (if P then [ClosedResp a] else []) = []" "waits (if P then [ClosedResp a] else []) = []"
  by (auto simp: prelude_events_def)

lemma rt_attempts_order:
  "k \<le> m \<Longrightarrow> \<exists>j \<le> k. map fst (sents (trace (rt_attempts env m k req prev))) = [m - k..<m - k + j]"
proof (induction k arbitrary: req prev)
  case (Suc k)
  show ?case
  proof (cases rule: rt_attempts_cases [where m = m and k = k and env = env and req = req and prev = prev])
    case (cancelled e)
    then show ?thesis by (intro exI [of _ 0]) simp
  next
    case nilderef
    then show ?thesis by (intro exI [of _ 1]) simp
  next
    case (success resp)
    then show ?thesis by (intro exI [of _ 1]) simp
  next
    case (failed resp err)
    obtain j where j: "j \<le> k" "map fst (sents (trace (rt_attempts env m k
        (consume (if 0 < m - Suc k then rewind (m - Suc k) req else req)) (resp, err)))) = [m - k..<m - k + j]"
      using Suc by fastforce
    have "m - k = Suc (m - Suc k)" using Suc.prems by simp
    then have "(m - Suc k) # [m - k..<m - k + j] = [m - Suc k..<m - Suc k + Suc j]"
      by (simp only: upt_conv_Cons [of "m - Suc k" "m - Suc k + Suc j"]) simp
    then show ?thesis using j failed(3) by (intro exI [of _ "Suc j"]) simp
  qed
qed simp

lemma consume_getBody [simp]: "getBody (consume req) = getBody req"
  by (simp add: consume_def)

lemma rewind_getBody [simp]: "getBody (rewind a req) = getBody req"
  by (simp add: rewind_def split: option.split sum.split)

lemma rewind_mem: "getBody req = Some (\<lambda>_. Inr b0) \<Longrightarrow> req_body (rewind a req) = Some b0"
  by (simp add: rewind_def)

lemma rt_attempts_same_body:
  "k \<le> m \<Longrightarrow> getBody req = Some (\<lambda>_. Inr b0) \<Longrightarrow> (k = m \<longrightarrow> req_body req = Some b0) \<Longrightarrow>
     (i, b) \<in> set (sents (trace (rt_attempts env m k req prev))) \<Longrightarrow> b = Some b0"
proof (induction k arbitrary: req prev)
  case (Suc k)
  let ?a = "m - Suc k"
  have body: "req_body (if 0 < ?a then rewind ?a req else req) = Some b0"
    using Suc.prems by (auto simp: rewind_mem)
  show ?case
  proof (cases rule: rt_attempts_cases [where m = m and k = k and env = env and req = req and prev = prev])
    case (failed resp err)
    let ?req = "consume (if 0 < ?a then rewind ?a req else req)"
    have "getBody ?req = Some (\<lambda>_. Inr b0)" using Suc.prems(2) by simp
    then show ?thesis using Suc.IH [of ?req "(resp, err)"] Suc.prems(1,4) failed(3) body by auto
  qed (use Suc.prems(4) body in auto)
qed simp


lemma rt_attempts_waits:
  "waits (trace (rt_attempts env m k req prev)) =
     map (\<lambda>i. int i * 50 * millisecond)
       (filter (\<lambda>i. 0 < i) (map fst (sents (trace (rt_attempts env m k req prev)))))"
proof (induction k arbitrary: req prev)
  case (Suc k)
  show ?case
    by (cases rule: rt_attempts_cases [where m = m and k = k and env = env and req = req and prev = prev])
      (simp_all add: Suc)
qed simp

text \<open>What the loop returns and whether it reports a result to the breaker.\<close>

definition rt_verdict :: "rt_env \<Rightarrow> nat \<Rightarrow> nat \<Rightarrow> rt_result \<Rightarrow> bool" where
  "rt_verdict env m n r \<longleftrightarrow>
     (case recorded r of
        Some True \<Rightarrow> \<exists>resp. ret r = Return (Some resp) None \<and> resp_status resp < 500
      | Some False \<Rightarrow> \<exists>resp err. ret r = Return resp err \<and> \<not> attempt_ok resp err
          \<and> length (sents (trace r)) = n
      | None \<Rightarrow> ret r = NilDeref \<or> (\<exists>a e. 0 < a \<and> a < m \<and> wait_end env a = Some e \<and> ret r = Return None (Some e)))"

lemma rt_attempts_verdict:
  "k \<le> m \<Longrightarrow> \<not> attempt_ok (fst prev) (snd prev) \<Longrightarrow> rt_verdict env m k (rt_attempts env m k req prev)"
proof (induction k arbitrary: req prev)
  case 0
  then show ?case by (simp add: rt_verdict_def)
next
  case (Suc k)
  show ?case
  proof (cases rule: rt_attempts_cases [where m = m and k = k and env = env and req = req and prev = prev])
    case (cancelled e)
    then show ?thesis using Suc.prems(1) by (auto simp: rt_verdict_def intro!: exI [of _ "m - Suc k"])
  next
    case nilderef
    then show ?thesis by (simp add: rt_verdict_def)
  next
    case (success resp)
    then show ?thesis by (auto simp: rt_verdict_def attempt_ok_def)
  next
    case (failed resp err)
    have "rt_verdict env m k (rt_attempts env m k
        (consume (if 0 < m - Suc k then rewind (m - Suc k) req else req)) (resp, err))"
      using failed(1) Suc.prems(1) by (intro Suc.IH) auto
    then show ?thesis
      unfolding failed(3) by (auto simp: rt_verdict_def split: option.splits bool.splits)
  qed
qed

text \<open>
  Every response body that was received is closed by the loop, except the one it hands to
  its caller.
\<close>

definition no_leak :: "rt_result \<Rightarrow> bool" where
  "no_leak r \<longleftrightarrow> (\<forall>i resp err. Got i (Some resp) err \<in> set (trace r) \<longrightarrow> resp_body resp \<noteq> None \<longrightarrow>
     (ClosedResp i \<in> set (trace r) \<longleftrightarrow>
        \<not> (ret r = Return (Some resp) err \<and> i = fst (last (sents (trace r))))))"

lemma rt_attempts_indices:
  "k \<le> m \<Longrightarrow> Got i resp err \<in> set (trace (rt_attempts env m k req prev))
     \<or> ClosedResp i \<in> set (trace (rt_attempts env m k req prev)) \<Longrightarrow> m - k \<le> i"
proof (induction k arbitrary: req prev)
  case (Suc k)
  show ?case
  proof (cases rule: rt_attempts_cases [where m = m and k = k and env = env and req = req and prev = prev])
    case (failed resp' err')
    then show ?thesis
      using Suc.prems Suc.IH [of "consume (if 0 < m - Suc k then rewind (m - Suc k) req else req)" "(resp', err')"]
      by (auto split: if_splits)
  qed (use Suc.prems in auto)
qed simp

lemma rt_attempts_got_sent:
  "k \<le> m \<Longrightarrow> Got i resp err \<in> set (trace (rt_attempts env m k req prev)) \<Longrightarrow>
     sents (trace (rt_attempts env m k req prev)) \<noteq> []"
proof (cases k)
  case (Suc k')
  assume "Got i resp err \<in> set (trace (rt_attempts env m k req prev))"
  then show ?thesis unfolding Suc
    by (cases rule: rt_attempts_cases [where m = m and k = k' and env = env and req = req and prev = prev]) auto
qed simp

lemma rt_attempts_unsent:
  "sents (trace (rt_attempts env m (Suc k) req prev)) = [] \<Longrightarrow>
     \<exists>e. ret (rt_attempts env m (Suc k) req prev) = Return None (Some e)"
  by (cases rule: rt_attempts_cases [where m = m and k = k and env = env and req = req and prev = prev]) auto

lemma rt_attempts_last:
  assumes "k \<le> m" "sents (trace (rt_attempts env m k req prev)) \<noteq> []"
  shows "m - k \<le> fst (last (sents (trace (rt_attempts env m k req prev))))"
proof -
  obtain j where "map fst (sents (trace (rt_attempts env m k req prev))) = [m - k..<m - k + j]"
    using rt_attempts_order [OF assms(1)] by blast
  moreover have "fst (last (sents (trace (rt_attempts env m k req prev))))
      \<in> set (map fst (sents (trace (rt_attempts env m k req prev))))"
    using assms(2) by simp
  ultimately show ?thesis by auto
qed

lemma rt_attempts_no_leak:
  "k \<le> m \<Longrightarrow> no_leak (rt_attempts env m k req prev)"
proof (induction k arbitrary: req prev)
  case 0
  then show ?case by (simp add: no_leak_def)
next
  case (Suc k)
  let ?a = "m - Suc k"
  show ?case
  proof (cases rule: rt_attempts_cases [where m = m and k = k and env = env and req = req and prev = prev])
    case (failed resp err)
    define r' where "r' = rt_attempts env m k (consume (if 0 < ?a then rewind ?a req else req)) (resp, err)"
    have IH: "no_leak r'" unfolding r'_def using Suc by simp
    have idx: "m - k \<le> i" if "Got i x y \<in> set (trace r') \<or> ClosedResp i \<in> set (trace r')" for i x y
      using that rt_attempts_indices [of k m] Suc.prems unfolding r'_def by auto
    have a: "?a < m - k" using Suc.prems by simp
    have k0: "k = 0 \<Longrightarrow> r' = \<lparr>ret = Return resp err, recorded = Some False, trace = []\<rparr>"
      by (simp add: r'_def)
    have last: "last (sents (trace (rt_attempts env m (Suc k) req prev))) = last (sents (trace r'))"
      if "Got i x y \<in> set (trace r')" for i x y
      using that rt_attempts_got_sent [of k m] Suc.prems unfolding failed(3) r'_def by simp
    have ends: "(ret r' = Return (Some x) y \<and> ?a = fst (last ((?a, b) # sents (trace r')))) \<longleftrightarrow> \<not> ?a < m - 1"
      if "resp = Some x" "err = y" for x y b
    proof (cases k)
      case 0
      then show ?thesis using that k0 by simp
    next
      case (Suc k')
      have "\<exists>e. ret r' = Return None (Some e)" if "sents (trace r') = []"
        using that unfolding r'_def Suc by (rule rt_attempts_unsent)
      moreover have "m - k \<le> fst (last (sents (trace r')))" if "sents (trace r') \<noteq> []"
        using that Suc.prems unfolding r'_def by (intro rt_attempts_last) auto
      ultimately have "\<not> (ret r' = Return (Some x) y \<and> ?a = fst (last ((?a, b) # sents (trace r'))))"
        using a by (cases "sents (trace r') = []") auto
      moreover have "?a < m - 1" using Suc Suc.prems by simp
      ultimately show ?thesis by blast
    qed
    show ?thesis unfolding no_leak_def
    proof (intro allI impI)
      fix i x y
      assume got: "Got i (Some x) y \<in> set (trace (rt_attempts env m (Suc k) req prev))"
        and body: "resp_body x \<noteq> None"
      show "ClosedResp i \<in> set (trace (rt_attempts env m (Suc k) req prev)) \<longleftrightarrow>
          \<not> (ret (rt_attempts env m (Suc k) req prev) = Return (Some x) y
             \<and> i = fst (last (sents (trace (rt_attempts env m (Suc k) req prev)))))"
      proof (cases "Got i (Some x) y \<in> set (trace r')")
        case True
        then have "i \<noteq> ?a" using idx [of i "Some x" y] a by auto
        then have "ClosedResp i \<in> set (trace (rt_attempts env m (Suc k) req prev))
            \<longleftrightarrow> ClosedResp i \<in> set (trace r')"
          unfolding failed(3) r'_def by auto
        then show ?thesis
          using IH True body last [OF True] unfolding no_leak_def failed(3) r'_def by simp
      next
        case False
        then have i: "i = ?a" "resp = Some x" "err = y"
          using got unfolding failed(3) r'_def by (auto split: if_splits)
        have "ClosedResp i \<notin> set (trace r')" using idx [of i] a i(1) by auto
        then show ?thesis
          using ends [OF i(2,3)] body i unfolding failed(3) r'_def [symmetric]
          by (auto simp: resp_has_body_def)
      qed
    qed
  qed (auto simp: no_leak_def)
qed


section \<open>Properties\<close>

definition max_attempts :: "http_request \<Rightarrow> nat" where
  "max_attempts req = (if isIdempotent (req_method req) then 3 else 1)"

definition read_fails :: "http_request \<Rightarrow> go_error option" where
  "read_fails req = (if isIdempotent (req_method req) \<and> getBody req = None
     then (case req_body req of Some b \<Rightarrow> read_err b | None \<Rightarrow> None) else None)"

lemma rt_call_cases:
  obtains (unreadable) e where "read_fails req = Some e"
      "rt_call env req = \<lparr>ret = Return None (Some e), recorded = None, trace = []\<rparr>"
  | (loop) pre req' where "read_fails req = None" "pre = [] \<or> pre = [ClosedReqBody]"
      "rt_call env req = emit pre (rt_attempts env (max_attempts req) (max_attempts req) req' (None, None))"
      "\<And>b. isIdempotent (req_method req) \<Longrightarrow> getBody req = None \<Longrightarrow> req_body req = Some b \<Longrightarrow>
         getBody req' = Some (\<lambda>_. Inr (mem_body (content b))) \<and> req_body req' = Some (mem_body (content b))"
proof (cases "read_fails req")
  case (Some e)
  then have "rt_call env req = \<lparr>ret = Return None (Some e), recorded = None, trace = []\<rparr>"
    by (auto simp: rt_call_def read_fails_def split: if_splits option.splits)
  with Some show ?thesis by (rule unreadable)
next
  case None
  have e0: "emit [] r = r" for r by (simp add: emit_def)
  show ?thesis
  proof (cases "isIdempotent (req_method req) \<and> getBody req = None \<and> req_body req \<noteq> None")
    case True
    then obtain b' where b': "req_body req = Some b'" by auto
    show ?thesis
      by (rule loop [of "[ClosedReqBody]" "req\<lparr>getBody := Some (\<lambda>_. Inr (mem_body (content b'))),
          req_body := Some (mem_body (content b'))\<rparr>"])
        (use True None b' in \<open>auto simp: rt_call_def read_fails_def max_attempts_def Let_def\<close>)
  next
    case False
    then show ?thesis
      by (intro loop [of "[]" req])
        (auto simp: None e0 rt_call_def max_attempts_def split: option.splits)
  qed
qed

text \<open>
  C16. Retries are bounded and ordered: \<open>RoundTrip\<close> sends attempts \<open>0, 1, ...\<close> in order, at
  most three for GET, HEAD, PUT and DELETE and at most one for every other method, so a
  request that is not idempotent is never sent twice; before attempt \<open>i > 0\<close> it waits
  \<open>50 i\<close> milliseconds, which grows linearly and has no random part.
\<close>

theorem transport_attempts_bounded:
  "\<exists>j \<le> max_attempts req. map fst (sents (trace (rt_call env req))) = [0..<j]
     \<and> waits (trace (rt_call env req)) = map (\<lambda>i. int i * 50 * millisecond) [1..<j]"
proof (cases rule: rt_call_cases [where env = env and req = req])
  case (unreadable e)
  then show ?thesis by (intro exI [of _ 0]) simp
next
  case (loop pre req')
  let ?n = "max_attempts req"
  obtain j where j: "j \<le> ?n" "map fst (sents (trace (rt_attempts env ?n ?n req' (None, None)))) = [0..<j]"
    using rt_attempts_order [of ?n ?n env req' "(None, None)"] by auto
  have "filter (\<lambda>i. 0 < i) [0..<j] = [1..<j]"
    by (cases j) (auto simp: upt_conv_Cons simp del: upt_Suc)
  moreover have "sents pre = []" "waits pre = []" using loop(2) by auto
  ultimately show ?thesis using j loop(3) by (intro exI [of _ j]) (simp add: rt_attempts_waits)
qed

text \<open>
  C18. The body is rewound: when an idempotent request has a readable body and no
  \<open>GetBody\<close>, every attempt sends a fresh copy of the whole original body.
\<close>

theorem transport_rewinds_body:
  assumes "isIdempotent (req_method req)" "getBody req = None" "req_body req = Some b" "read_err b = None"
    and "(i, sent) \<in> set (sents (trace (rt_call env req)))"
  shows "sent = Some \<lparr>content = content b, read_err = None, fresh = True\<rparr>"
proof (cases rule: rt_call_cases [where env = env and req = req])
  case (unreadable e)
  then show ?thesis using assms by (simp add: read_fails_def)
next
  case (loop pre req')
  have "sents pre = []" using loop(2) by auto
  then have "sent = Some (mem_body (content b))"
    using assms(5) loop(3) loop(4) [OF assms(1-3)]
    by (intro rt_attempts_same_body [of "max_attempts req" "max_attempts req" req' _ i _ env "(None, None)"]) auto
  then show ?thesis by (simp add: mem_body_def)
qed

definition demo_put :: http_request where
  "demo_put = \<lparr>req_method = ''PUT'', req_path = ''/x'', req_query = [], req_header = Map.empty, req_host = ''h'',
     remoteAddr = ''1.2.3.4:5'', req_body = Some (mem_body ''data''), getBody = None\<rparr>"

definition flaky_env :: rt_env where
  "flaky_env = \<lparr>base = (\<lambda>i req. if i = 0 then (None, Some (ErrorString ''reset''))
       else (Some \<lparr>resp_status = 200, resp_header = Map.empty, resp_body = Some ''ok''\<rparr>, None)),
     wait_end = (\<lambda>_. None)\<rparr>"

lemma demo_put_trace: "sents (trace (rt_call flaky_env demo_put)) =
    [(0, Some (mem_body ''data'')), (1, Some (mem_body ''data''))]"
  by (simp add: rt_call_def demo_put_def flaky_env_def isIdempotent_def mem_body_def
      numeral_3_eq_3 rt_attempts.simps(2) Let_def rewind_def consume_def)

theorem transport_rewinds_body_witness:
  "(1, Some (mem_body ''data'')) \<in> set (sents (trace (rt_call flaky_env demo_put)))
   \<and> Some (mem_body ''data'') = Some \<lparr>content = content (mem_body ''data''), read_err = None, fresh = True\<rparr>"
proof -
  have m: "(1, Some (mem_body ''data'')) \<in> set (sents (trace (rt_call flaky_env demo_put)))"
    by (simp add: demo_put_trace)
  have "isIdempotent (req_method demo_put)" "getBody demo_put = None"
    "req_body demo_put = Some (mem_body ''data'')" "read_err (mem_body ''data'') = None"
    by (simp_all add: demo_put_def isIdempotent_def mem_body_def)
  from transport_rewinds_body [OF this m] m show ?thesis by blast
qed




section \<open>A lost probe\<close>

text \<open>Calls one after another on one breaker.\<close>

fun rt_seq :: "(rt_env \<times> time \<times> time \<times> http_request) list \<Rightarrow> circuit_breaker
    \<Rightarrow> rt_result list \<times> circuit_breaker" where
  "rt_seq [] cb = ([], cb)"
| "rt_seq ((env, t0, t1, req) # calls) cb =
     (let (r, cb') = RoundTrip env t0 id t1 req cb; (rs, cb'') = rt_seq calls cb' in (r # rs, cb''))"

lemma rt_seq_length: "length (fst (rt_seq calls cb)) = length calls"
  by (induction calls cb rule: rt_seq.induct) (auto split: prod.splits)

lemma RoundTrip_half_open:
  "state cb = StateHalfOpen \<Longrightarrow> RoundTrip env t0 f t1 req cb =
     (\<lparr>ret = Return None (Some breaker_open_error), recorded = None, trace = []\<rparr>, cb)"
  by (simp add: RoundTrip_def CircuitBreaker_Allow_def)

lemma half_open_refuses:
  "state cb = StateHalfOpen \<Longrightarrow>
     (\<forall>r \<in> set (fst (rt_seq calls cb)). ret r = Return None (Some breaker_open_error) \<and> trace r = [])
     \<and> snd (rt_seq calls cb) = cb"
proof (induction calls)
  case (Cons c calls)
  obtain env t0 t1 req where "c = (env, t0, t1, req)" by (cases c) auto
  then show ?case using Cons by (auto simp: RoundTrip_half_open split: prod.splits)
qed simp


definition bad_put :: http_request where
  "bad_put = demo_put\<lparr>req_body := Some \<lparr>content = [], read_err = Some (ErrorString ''unexpected EOF''), fresh = True\<rparr>\<rparr>"

definition later_calls :: "(rt_env \<times> time \<times> time \<times> http_request) list" where
  "later_calls = [(flaky_env, 99000000000, 99000000001, demo_put), (flaky_env, 199000000000, 199000000001, demo_put)]"



section \<open>Concurrent requests\<close>

text \<open>
  Any number of requests share the breaker. A request is admitted or refused by \<open>Allow\<close>; an
  admitted one later reports a result, or leaves without one (\<open>abandon\<close>: the branches of
  \<open>rt_call\<close> with no recorded result). The steps of different requests interleave freely.
\<close>

record cb_sys =
  brk :: circuit_breaker
  inflight :: nat

inductive cb_step :: "cb_sys \<Rightarrow> cb_sys \<Rightarrow> bool" where
  admit: "CircuitBreaker_Allow now (brk s) = (True, cb') \<Longrightarrow>
     cb_step s (s\<lparr>brk := cb', inflight := Suc (inflight s)\<rparr>)"
| refuse: "CircuitBreaker_Allow now (brk s) = (False, cb') \<Longrightarrow> cb_step s (s\<lparr>brk := cb'\<rparr>)"
| report: "inflight s = Suc k \<Longrightarrow>
     cb_step s (s\<lparr>brk := CircuitBreaker_RecordResult now ok (brk s), inflight := k\<rparr>)"
| abandon: "inflight s = Suc k \<Longrightarrow> cb_step s (s\<lparr>inflight := k\<rparr>)"

inductive cb_reach :: "circuit_breaker \<Rightarrow> nat \<Rightarrow> cb_sys \<Rightarrow> bool" for cb0 where
  start: "cb_reach cb0 0 \<lparr>brk = cb0, inflight = 0\<rparr>"
| step: "cb_reach cb0 n s \<Longrightarrow> cb_step s t \<Longrightarrow> cb_reach cb0 (Suc n) t"

inductive_cases cb_stepE: "cb_step s t"

text \<open>A call of \<open>RoundTrip\<close> is such steps: one if it is refused, two around the others' steps.\<close>

lemma RoundTrip_steps:
  assumes "RoundTrip env t0 f t1 req (brk s) = (r, cb')"
  shows "cb_step s (s\<lparr>brk := cb'\<rparr>)
    \<or> (\<exists>cb1. cb_step s (s\<lparr>brk := cb1, inflight := Suc (inflight s)\<rparr>)
         \<and> cb_step (s\<lparr>brk := f cb1, inflight := Suc (inflight s)\<rparr>) (s\<lparr>brk := cb'\<rparr>))"
proof -
  obtain ok cb1 where al: "CircuitBreaker_Allow t0 (brk s) = (ok, cb1)" by force
  show ?thesis
  proof (cases ok)
    case False
    then show ?thesis using assms al cb_step.refuse [of t0 s] by (auto simp: RoundTrip_def)
  next
    case True
    let ?s1 = "s\<lparr>brk := f cb1, inflight := Suc (inflight s)\<rparr>"
    have "cb_step ?s1 (?s1\<lparr>brk := cb', inflight := inflight s\<rparr>)"
    proof (cases "recorded (rt_call env req)")
      case None
      then have "cb' = f cb1" using assms al True by (auto simp: RoundTrip_def Let_def)
      then show ?thesis using cb_step.abandon [of ?s1 "inflight s"] by simp
    next
      case (Some b)
      then have "cb' = CircuitBreaker_RecordResult t1 b (brk ?s1)"
        using assms al True by (auto simp: RoundTrip_def Let_def)
      then show ?thesis using cb_step.report [of ?s1 "inflight s" t1 b] by simp
    qed
    then show ?thesis using al True cb_step.admit [of t0 s cb1] by (auto intro!: exI [of _ cb1])
  qed
qed

lemma cb_reach_inv:
  "cb_reach cb0 n s \<Longrightarrow> cb_inv cb0 \<Longrightarrow> failures cb0 = 0 \<Longrightarrow> n < 2 ^ 63 \<Longrightarrow>
     cb_inv (brk s) \<and> failures (brk s) \<le> int n \<and> threshold (brk s) = threshold cb0"
proof (induction rule: cb_reach.induct)
  case (step n s t)
  then have IH: "cb_inv (brk s)" "failures (brk s) \<le> int n" "threshold (brk s) = threshold cb0" by auto
  then have room: "failures (brk s) < 2 ^ 63 - 1" using step.prems(3) by simp
  from step.hyps(2) show ?case
  proof cases
    case (admit now cb')
    then show ?thesis using cb.allow_inv [OF IH(1), of now] cb.allow_frame [of now "brk s"] IH by simp
  next
    case (refuse now cb')
    then show ?thesis using cb.allow_inv [OF IH(1), of now] cb.allow_frame [of now "brk s"] IH by simp
  next
    case (report k now ok)
    then show ?thesis
      using cb.record_inv [OF IH(1) room] cb.record_used [OF IH(1) room, of now ok] IH
      by (simp add: cb.record_frame)
  next
    case (abandon k)
    then show ?thesis using IH by simp
  qed
qed simp



end
