(* ===== verification/Go_Strings.thy ===== *)
theory Go_Strings
  imports Http_Model
begin

text \<open>
  What the gateway uses of Go's strings: decimal numbers (\<open>strconv.Itoa\<close>,
  \<open>strconv.Atoi\<close>, \<open>strconv.ParseBool\<close>), the functions of package \<open>strings\<close> with the
  separators the source passes, and the iteration of a string by runes, which decodes UTF-8
  and yields U+FFFD for an invalid byte. A rune is a natural number.
\<close>

lemma char_of_eqI: "of_char c = (n :: nat) \<Longrightarrow> char_of n = c"
  by auto

lemma char_literals:
  "char_of (47 :: nat) = CHR ''/''" "char_of (123 :: nat) = CHR ''{''" "char_of (105 :: nat) = CHR ''i''"
  "char_of (100 :: nat) = CHR ''d''" "char_of (125 :: nat) = CHR ''}''"
  by (rule char_of_eqI; simp)+

section \<open>Decimal numbers\<close>

definition digit :: "nat \<Rightarrow> char" where
  "digit d = char_of (48 + d)"

fun nat_dec :: "nat \<Rightarrow> string" where
  "nat_dec n = (if n < 10 then [digit n] else nat_dec (n div 10) @ [digit (n mod 10)])"

declare nat_dec.simps [simp del]

definition Itoa :: "int \<Rightarrow> string" where
  "Itoa i = (if i < 0 then CHR ''-'' # nat_dec (nat (- i)) else nat_dec (nat i))"

definition dec_val :: "string \<Rightarrow> nat" where
  "dec_val s = foldl (\<lambda>a c. 10 * a + (byte_of c - 48)) 0 s"

text \<open>\<open>None\<close> is any error of \<open>Atoi\<close>: the callers only test for one.\<close>

definition Atoi :: "string \<Rightarrow> int option" where
  "Atoi s =
     (let neg = (s \<noteq> [] \<and> hd s = CHR ''-'');
          ds = (if s \<noteq> [] \<and> (hd s = CHR ''-'' \<or> hd s = CHR ''+'') then tl s else s)
      in if ds = [] \<or> \<not> list_all is_digit ds then None
         else let v = (if neg then - int (dec_val ds) else int (dec_val ds))
              in if int64 v then Some v else None)"

lemma digit_byte: "d < 10 \<Longrightarrow> byte_of (digit d) = 48 + d"
  by (simp add: digit_def of_char_of)

lemma digit_is_digit [simp]: "d < 10 \<Longrightarrow> is_digit (digit d)"
  by (simp add: is_digit_def digit_byte)

lemma nat_dec_digits: "list_all is_digit (nat_dec n)"
  by (induction n rule: nat_dec.induct) (subst nat_dec.simps, simp)

lemma nat_dec_nonempty [simp]: "nat_dec n \<noteq> []"
  by (subst nat_dec.simps) simp

lemma dec_val_nat_dec [simp]: "dec_val (nat_dec n) = n"
proof (induction n rule: nat_dec.induct)
  case (1 n)
  then show ?case
    by (subst nat_dec.simps) (auto simp: dec_val_def digit_byte)
qed

lemma is_digit_sign: "is_digit c \<Longrightarrow> c \<noteq> CHR ''-'' \<and> c \<noteq> CHR ''+''"
  by (auto simp: is_digit_def)

lemma nat_dec_hd: "hd (nat_dec n) \<noteq> CHR ''-''" "hd (nat_dec n) \<noteq> CHR ''+''"
  using nat_dec_digits [of n] is_digit_sign by (cases "nat_dec n"; auto)+

lemma Atoi_Itoa: "int64 i \<Longrightarrow> Atoi (Itoa i) = Some i"
  using nat_dec_digits [of "nat (- i)"] nat_dec_digits [of "nat i"] nat_dec_hd
  by (simp add: Atoi_def Itoa_def Let_def)

lemma Atoi_int64: "Atoi s = Some i \<Longrightarrow> int64 i"
  by (auto simp: Atoi_def Let_def split: if_splits)

text \<open>\<open>ParseBool\<close> knows twelve spellings.\<close>

definition ParseBool :: "string \<Rightarrow> bool option" where
  "ParseBool s =
     (if s \<in> {''1'', ''t'', ''T'', ''true'', ''TRUE'', ''True''} then Some True
      else if s \<in> {''0'', ''f'', ''F'', ''false'', ''FALSE'', ''False''} then Some False
      else None)"

section \<open>Package strings\<close>

definition HasPrefix :: "string \<Rightarrow> string \<Rightarrow> bool" where
  "HasPrefix s p \<longleftrightarrow> take (length p) s = p"

definition TrimPrefix :: "string \<Rightarrow> string \<Rightarrow> string" where
  "TrimPrefix s p = (if HasPrefix s p then drop (length p) s else s)"

text \<open>\<open>Cut\<close> and \<open>SplitSeq\<close> at a separator of one byte.\<close>

fun Cut :: "string \<Rightarrow> char \<Rightarrow> string \<times> string \<times> bool" where
  "Cut [] sep = ([], [], False)"
| "Cut (c # s) sep =
     (if c = sep then ([], s, True) else let (a, b, found) = Cut s sep in (c # a, b, found))"

fun SplitSeq :: "string \<Rightarrow> char \<Rightarrow> string list" where
  "SplitSeq [] sep = [[]]"
| "SplitSeq (c # s) sep =
     (if c = sep then [] # SplitSeq s sep
      else case SplitSeq s sep of [] \<Rightarrow> [[c]] | p # ps \<Rightarrow> (c # p) # ps)"

fun Contains :: "string \<Rightarrow> string \<Rightarrow> bool" where
  "Contains [] sub = (sub = [])"
| "Contains (c # s) sub = (HasPrefix (c # s) sub \<or> Contains s sub)"

lemma Cut_append: "sep \<notin> set a \<Longrightarrow> Cut (a @ sep # b) sep = (a, b, True)"
  by (induction a) auto

lemma Cut_none: "sep \<notin> set a \<Longrightarrow> Cut a sep = (a, [], False)"
  by (induction a) auto

lemma HasPrefix_append [simp]: "HasPrefix (p @ s) p"
  by (simp add: HasPrefix_def)

lemma TrimPrefix_append [simp]: "TrimPrefix (p @ s) p = s"
  by (simp add: TrimPrefix_def)

lemma Contains_iff: "Contains s sub \<longleftrightarrow> (\<exists>a b. s = a @ sub @ b)"
proof (induction s)
  case (Cons c s)
  have p: "HasPrefix (c # s) sub \<longleftrightarrow> (\<exists>b. c # s = sub @ b)"
    by (metis HasPrefix_def append_eq_conv_conj append_take_drop_id)
  show ?case
  proof
    assume "Contains (c # s) sub"
    then show "\<exists>a b. c # s = a @ sub @ b"
      using p Cons.IH by (metis Contains.simps(2) append_Cons append_Nil)
  next
    assume "\<exists>a b. c # s = a @ sub @ b"
    then obtain a b where ab: "c # s = a @ sub @ b" by blast
    show "Contains (c # s) sub"
    proof (cases a)
      case Nil
      have "HasPrefix (c # s) sub" unfolding p using ab Nil by auto
      then show ?thesis by simp
    next
      case (Cons c' a')
      then show ?thesis using ab Cons.IH by auto
    qed
  qed
qed simp

section \<open>Runes\<close>

type_synonym rune = nat

definition cont_byte :: "char \<Rightarrow> bool" where
  "cont_byte c \<longleftrightarrow> 128 \<le> byte_of c \<and> byte_of c \<le> 191"

text \<open>The first continuation byte has a smaller range after some leading bytes.\<close>

definition second_ok :: "nat \<Rightarrow> char \<Rightarrow> bool" where
  "second_ok b c \<longleftrightarrow>
     (if b = 224 then 160 else if b = 240 then 144 else 128) \<le> byte_of c
     \<and> byte_of c \<le> (if b = 237 then 159 else if b = 244 then 143 else 191)"

definition low6 :: "char \<Rightarrow> nat" where
  "low6 c = byte_of c - 128"

text \<open>\<open>utf8.DecodeRuneInString\<close>: the rune and the number of bytes it takes.\<close>

definition decode_rune :: "string \<Rightarrow> rune \<times> nat" where
  "decode_rune s =
     (case s of
        [] \<Rightarrow> (65533, 0)
      | c0 # t \<Rightarrow>
          let b = byte_of c0 in
          if b < 128 then (b, 1)
          else if 194 \<le> b \<and> b \<le> 223 then
            (case t of c1 # _ \<Rightarrow> if cont_byte c1 then ((b - 192) * 64 + low6 c1, 2) else (65533, 1)
             | _ \<Rightarrow> (65533, 1))
          else if 224 \<le> b \<and> b \<le> 239 then
            (case t of c1 # c2 # _ \<Rightarrow>
                 if second_ok b c1 \<and> cont_byte c2
                 then ((b - 224) * 4096 + low6 c1 * 64 + low6 c2, 3) else (65533, 1)
             | _ \<Rightarrow> (65533, 1))
          else if 240 \<le> b \<and> b \<le> 244 then
            (case t of c1 # c2 # c3 # _ \<Rightarrow>
                 if second_ok b c1 \<and> cont_byte c2 \<and> cont_byte c3
                 then ((b - 240) * 262144 + low6 c1 * 4096 + low6 c2 * 64 + low6 c3, 4) else (65533, 1)
             | _ \<Rightarrow> (65533, 1))
          else (65533, 1))"

lemma decode_rune_width: "s \<noteq> [] \<Longrightarrow> 1 \<le> snd (decode_rune s)"
  by (auto simp: decode_rune_def Let_def split: list.splits)

text \<open>\<open>for i, c := range s\<close>: byte index and rune.\<close>

function range_from :: "nat \<Rightarrow> string \<Rightarrow> (nat \<times> rune) list" where
  "range_from i s =
     (if s = [] then []
      else let (r, w) = decode_rune s in (i, r) # range_from (i + w) (drop w s))"
  by auto
termination
proof (relation "measure (length \<circ> snd)")
  fix i s x r w
  assume "s \<noteq> []" "x = decode_rune s" "(r, w) = x"
  then show "((i + w, drop w s), (i, s)) \<in> measure (length \<circ> snd)"
    using decode_rune_width [of s] by (cases s) (auto simp: prod_eq_iff)
qed simp

declare range_from.simps [simp del]

definition runes :: "string \<Rightarrow> rune list" where
  "runes s = map snd (range_from 0 s)"

text \<open>\<open>string(r)\<close>: the UTF-8 encoding of a rune.\<close>

definition encode_rune :: "rune \<Rightarrow> string" where
  "encode_rune r =
     (if r < 128 then [char_of r]
      else if r < 2048 then [char_of (192 + r div 64), char_of (128 + r mod 64)]
      else if 1114112 \<le> r \<or> (55296 \<le> r \<and> r < 57344) then map char_of [239, 191, 189 :: nat]
      else if r < 65536 then
        [char_of (224 + r div 4096), char_of (128 + r div 64 mod 64), char_of (128 + r mod 64)]
      else [char_of (240 + r div 262144), char_of (128 + r div 4096 mod 64),
            char_of (128 + r div 64 mod 64), char_of (128 + r mod 64)])"

definition scalar :: "rune \<Rightarrow> bool" where
  "scalar r \<longleftrightarrow> r < 1114112 \<and> \<not> (55296 \<le> r \<and> r < 57344)"

lemma byte_char_of: "n < 256 \<Longrightarrow> byte_of (char_of n) = n"
  by simp

lemma decode_rune_scalar: "scalar (fst (decode_rune s))"
proof -
  have "scalar ((b - 224) * 4096 + low6 c1 * 64 + low6 c2)"
    if "b \<le> 239" "second_ok b c1" "cont_byte c2" for b c1 c2
    using that by (auto simp: scalar_def second_ok_def cont_byte_def low6_def split: if_splits)
  moreover have "scalar ((b - 240) * 262144 + low6 c1 * 4096 + low6 c2 * 64 + low6 c3)"
    if "240 \<le> b" "b \<le> 244" "second_ok b c1" "cont_byte c2" "cont_byte c3" for b c1 c2 c3
    using that by (auto simp: scalar_def second_ok_def cont_byte_def low6_def split: if_splits)
  moreover have "scalar ((b - 192) * 64 + low6 c1)" if "b \<le> 223" "cont_byte c1" for b c1
    using that by (auto simp: scalar_def cont_byte_def low6_def)
  ultimately show ?thesis
    by (auto simp: decode_rune_def Let_def scalar_def split: list.splits)
qed

lemma decode_encode:
  assumes "scalar r"
  shows "decode_rune (encode_rune r @ s) = (r, length (encode_rune r))"
proof -
  consider "r < 128" | "128 \<le> r" "r < 2048" | "2048 \<le> r" "r < 65536" "\<not> (55296 \<le> r \<and> r < 57344)"
    | "65536 \<le> r" "r < 1114112"
    using assms unfolding scalar_def by (metis linorder_not_le)
  then show ?thesis
  proof cases
    case 1
    then show ?thesis by (simp add: encode_rune_def decode_rune_def Let_def)
  next
    case 2
    then have "r div 64 < 32" "2 \<le> r div 64" "r mod 64 < 64" by simp_all
    then show ?thesis
      using 2 by (simp add: encode_rune_def decode_rune_def Let_def cont_byte_def low6_def)
  next
    case 3
    define x y z where "x = r div 4096" and "y = r div 64 mod 64" and "z = r mod 64"
    have q: "r div 4096 = r div 64 div 64" using div_mult2_eq [of r 64 64] by simp
    have r: "r = x * 4096 + y * 64 + z"
      using div_mult_mod_eq [of r 64] div_mult_mod_eq [of "r div 64" 64] unfolding x_def y_def z_def q
      by linarith
    have b: "x < 16" "y < 64" "z < 64" using 3 by (simp_all add: x_def y_def z_def)
    have sec: "second_ok (224 + x) (char_of (128 + y))"
      using 3 b unfolding r by (auto simp: second_ok_def)
    show ?thesis
      using 3 b sec unfolding x_def [symmetric] y_def [symmetric] z_def [symmetric]
      by (simp add: encode_rune_def decode_rune_def Let_def cont_byte_def low6_def
          flip: x_def y_def z_def) (simp add: r)
  next
    case 4
    define w x y z where "w = r div 262144" and "x = r div 4096 mod 64" and "y = r div 64 mod 64"
      and "z = r mod 64"
    have q: "r div 4096 = r div 64 div 64" "r div 262144 = r div 64 div 64 div 64"
      using div_mult2_eq [of r 64 64] div_mult2_eq [of r 4096 64] by simp_all
    have r: "r = w * 262144 + x * 4096 + y * 64 + z"
      using div_mult_mod_eq [of r 64] div_mult_mod_eq [of "r div 64" 64]
        div_mult_mod_eq [of "r div 64 div 64" 64] unfolding w_def x_def y_def z_def q
      by linarith
    have b: "w < 5" "x < 64" "y < 64" "z < 64" using 4 by (simp_all add: w_def x_def y_def z_def)
    have sec: "second_ok (240 + w) (char_of (128 + x))"
      using 4 b unfolding r by (auto simp: second_ok_def)
    show ?thesis
      using 4 b sec
      by (simp add: encode_rune_def decode_rune_def Let_def cont_byte_def low6_def
          flip: w_def x_def y_def z_def) (simp add: r)
  qed
qed

lemma encode_rune_nonempty [simp]: "encode_rune r \<noteq> []"
  by (simp add: encode_rune_def)

lemma range_from_shift: "map snd (range_from i s) = map snd (range_from j s)"
proof (induction i s arbitrary: j rule: range_from.induct)
  case (1 i s)
  show ?case
  proof (cases "s = []")
    case False
    obtain r w where d: "decode_rune s = (r, w)" by force
    show ?thesis
      using 1 [OF False d [symmetric] refl, of "j + w"] False
      by (subst (1 2) range_from.simps) (simp add: d)
  qed (simp add: range_from.simps)
qed

lemma runes_Nil [simp]: "runes [] = []"
  by (simp add: runes_def range_from.simps)

lemma runes_step:
  assumes "s \<noteq> []"
  shows "runes s = fst (decode_rune s) # runes (drop (snd (decode_rune s)) s)"
proof -
  obtain r w where d: "decode_rune s = (r, w)" by force
  have "runes s = r # map snd (range_from w (drop w s))"
    unfolding runes_def using assms by (subst range_from.simps) (simp add: d)
  then show ?thesis using range_from_shift [of w "drop w s" 0] by (simp add: runes_def d)
qed

lemma runes_encode: "scalar r \<Longrightarrow> runes (encode_rune r @ s) = r # runes s"
  using runes_step [of "encode_rune r @ s"] by (simp add: decode_encode)

lemma runes_encode_all: "list_all scalar rs \<Longrightarrow> runes (concat (map encode_rune rs) @ s) = rs @ runes s"
  by (induction rs) (simp_all add: runes_encode)

lemma runes_scalar: "list_all scalar (runes s)"
proof (induction "length s" arbitrary: s rule: less_induct)
  case less
  show ?case
  proof (cases "s = []")
    case False
    then have "length (drop (snd (decode_rune s)) s) < length s"
      using decode_rune_width [OF False] by (cases s) auto
    from less [OF this] show ?thesis
      using runes_step [OF False] by (simp add: decode_rune_scalar)
  qed simp
qed

lemma runes_ascii: "list_all (\<lambda>c. byte_of c < (128 :: nat)) s \<Longrightarrow> runes s = map of_char s"
  by (induction s) (simp_all add: runes_step decode_rune_def Let_def)

text \<open>\<open>utf8.ValidString\<close>.\<close>

function valid_utf8 :: "string \<Rightarrow> bool" where
  "valid_utf8 s =
     (if s = [] then True
      else let (r, w) = decode_rune s
           in if r = 65533 \<and> w = 1 then False else valid_utf8 (drop w s))"
  by auto
termination
proof (relation "measure length")
  fix s x r w
  assume "s \<noteq> []" "x = decode_rune s" "(r, w) = x"
  then show "(drop w s, s) \<in> measure length"
    using decode_rune_width [of s] by (cases s) (auto simp: prod_eq_iff)
qed simp

declare valid_utf8.simps [simp del]

definition encode :: "rune list \<Rightarrow> string" where
  "encode rs = concat (map encode_rune rs)"

lemma encode_simps [simp]:
  "encode [] = []" "encode (r # rs) = encode_rune r @ encode rs" "encode (rs @ rs') = encode rs @ encode rs'"
  by (simp_all add: encode_def)

lemma encode_eq_Nil [simp]: "encode rs = [] \<longleftrightarrow> rs = []"
  by (cases rs) auto

lemma runes_encode_append: "list_all scalar rs \<Longrightarrow> runes (encode rs @ s) = rs @ runes s"
  by (simp add: encode_def runes_encode_all)

lemma valid_utf8_encode: "list_all scalar rs \<Longrightarrow> valid_utf8 (encode rs)"
proof (induction rs)
  case (Cons r rs)
  moreover have "\<not> (r = 65533 \<and> length (encode_rune r) = 1)" by (auto simp: encode_rune_def)
  ultimately show ?case by (subst valid_utf8.simps) (auto simp: decode_encode)
qed (subst valid_utf8.simps, simp)

definition is_ascii :: "string \<Rightarrow> bool" where
  "is_ascii s \<longleftrightarrow> list_all (\<lambda>c. byte_of c < (128 :: nat)) s"

lemma encode_ascii: "is_ascii s \<Longrightarrow> encode (map of_char s) = s"
  by (induction s) (simp_all add: is_ascii_def encode_rune_def)

lemma valid_utf8_ascii: "is_ascii s \<Longrightarrow> valid_utf8 s"
proof -
  assume a: "is_ascii s"
  have "list_all scalar (map of_char s)"
    using a unfolding is_ascii_def by (induction s) (simp_all add: scalar_def)
  from valid_utf8_encode [OF this] show ?thesis by (simp only: encode_ascii [OF a])
qed

lemma is_ascii_Itoa: "is_ascii (Itoa i)"
proof -
  have "list_all is_digit s \<Longrightarrow> is_ascii s" for s
    unfolding is_ascii_def by (induction s) (auto simp: is_digit_def)
  then show ?thesis
    using nat_dec_digits [of "nat i"] nat_dec_digits [of "nat (- i)"] by (auto simp: Itoa_def is_ascii_def)
qed

section \<open>Case\<close>

text \<open>
  \<open>strings.ToLower\<close> and \<open>strings.EqualFold\<close>, as far as the source can observe them: it
  compares the results with ASCII words only. Besides the ASCII letters two runes have an
  ASCII lower case (U+0130 and the Kelvin sign), and two fold to an ASCII letter (the long s
  and the Kelvin sign); every other rune has a non-ASCII image, and the model keeps it.
\<close>

definition lower_rune :: "rune \<Rightarrow> rune" where
  "lower_rune r = (if 65 \<le> r \<and> r \<le> 90 then r + 32 else if r = 304 then 105 else if r = 8490 then 107 else r)"

definition fold_rune :: "rune \<Rightarrow> rune" where
  "fold_rune r = (if 65 \<le> r \<and> r \<le> 90 then r + 32 else if r = 383 then 115 else if r = 8490 then 107 else r)"

definition ToLower :: "string \<Rightarrow> string" where
  "ToLower s = concat (map (encode_rune \<circ> lower_rune) (runes s))"

definition EqualFold :: "string \<Rightarrow> string \<Rightarrow> bool" where
  "EqualFold s t \<longleftrightarrow> map fold_rune (runes s) = map fold_rune (runes t)"

end
