(* ===== verification/Response_Writer.thy ===== *)
theory Response_Writer
  imports Go_Strings
begin

text \<open>
  The server side of \<open>net/http\<close> and \<open>encoding/json\<close> as far as the handlers use them. A
  handler only writes to its \<open>ResponseWriter\<close>, so what it does to it is a list of actions;
  \<open>wire_of\<close> is the server's reading of such a list: what goes out to the client.
\<close>

section \<open>Actions and the wire\<close>

datatype waction = SetHeader string string | CopyHeaders header | WriteHeader int | WriteBody string | FlushW

record wire =
  wire_status :: "int option"
  wire_sent :: header
  wire_header :: header
  wire_body :: string
  wire_info :: "int list"

definition fresh_wire :: wire where
  "fresh_wire = \<lparr>wire_status = None, wire_sent = Map.empty, wire_header = Map.empty, wire_body = [], wire_info = []\<rparr>"

text \<open>
  The first final status counts, with the headers set by then; later calls of
  \<open>WriteHeader\<close> are superfluous. A status of the 1xx class other than 101 is sent ahead and
  is not final. A write or a flush without a status sends 200. Statuses 204 and 304 have no
  body.
\<close>

definition wire_commit :: "int \<Rightarrow> wire \<Rightarrow> wire" where
  "wire_commit c w =
     (if wire_status w \<noteq> None then w
      else if 100 \<le> c \<and> c \<le> 199 \<and> c \<noteq> 101 then w\<lparr>wire_info := wire_info w @ [c]\<rparr>
      else w\<lparr>wire_status := Some c, wire_sent := wire_header w\<rparr>)"

definition body_allowed :: "int option \<Rightarrow> bool" where
  "body_allowed c \<longleftrightarrow> c \<noteq> Some 101 \<and> c \<noteq> Some 204 \<and> c \<noteq> Some 304"

fun wire_step :: "waction \<Rightarrow> wire \<Rightarrow> wire" where
  "wire_step (SetHeader k v) w = w\<lparr>wire_header := header_set (wire_header w) k v\<rparr>"
| "wire_step (CopyHeaders h) w = w\<lparr>wire_header := header_copy (wire_header w) h\<rparr>"
| "wire_step (WriteHeader c) w = wire_commit c w"
| "wire_step (WriteBody b) w =
     (let w' = wire_commit 200 w in
      if body_allowed (wire_status w') then w'\<lparr>wire_body := wire_body w' @ b\<rparr> else w')"
| "wire_step FlushW w = wire_commit 200 w"

definition wire_of :: "waction list \<Rightarrow> wire" where
  "wire_of acts = wire_commit 200 (fold wire_step acts fresh_wire)"

lemma wire_commit_committed [simp]: "wire_status w = Some c \<Longrightarrow> wire_commit d w = w"
  by (simp add: wire_commit_def)

lemma wire_commit_200 [simp]: "wire_status (wire_commit 200 w) \<noteq> None"
  by (simp add: wire_commit_def)

lemma wire_step_keeps:
  assumes "wire_status w = Some c"
  shows "wire_status (wire_step a w) = Some c" "wire_sent (wire_step a w) = wire_sent w"
  using assms by (cases a; simp add: Let_def)+

lemma wire_steps_keep:
  assumes "wire_status w = Some c"
  shows "wire_status (fold wire_step acts w) = Some c" "wire_sent (fold wire_step acts w) = wire_sent w"
  using assms by (induction acts arbitrary: w) (simp_all add: wire_step_keeps)

text \<open>Once the status is out, only bodies matter, and they are appended.\<close>

fun body_of :: "waction list \<Rightarrow> string" where
  "body_of [] = []"
| "body_of (WriteBody b # acts) = b @ body_of acts"
| "body_of (a # acts) = body_of acts"

lemma wire_body_steps:
  assumes "wire_status w = Some c" "body_allowed (Some c)"
  shows "wire_body (fold wire_step acts w) = wire_body w @ body_of acts"
  using assms
proof (induction acts arbitrary: w)
  case (Cons a acts)
  then show ?case using wire_step_keeps [of w c a] by (cases a) (auto simp: Let_def)
qed simp

lemma wire_committed:
  assumes "wire_status (fold wire_step acts fresh_wire) = Some c"
  shows "wire_of (acts @ rest) = fold wire_step rest (fold wire_step acts fresh_wire)"
  using wire_steps_keep [OF assms, of rest] by (simp add: wire_of_def)

text \<open>A prefix of header settings, then a final status.\<close>

definition header_only :: "waction list \<Rightarrow> bool" where
  "header_only acts \<longleftrightarrow> (\<forall>a \<in> set acts. (\<exists>k v. a = SetHeader k v) \<or> (\<exists>h. a = CopyHeaders h))"

fun set_headers :: "waction list \<Rightarrow> header \<Rightarrow> header" where
  "set_headers [] h = h"
| "set_headers (SetHeader k v # acts) h = set_headers acts (header_set h k v)"
| "set_headers (CopyHeaders h' # acts) h = set_headers acts (header_copy h h')"
| "set_headers (a # acts) h = set_headers acts h"

lemma fold_header_only:
  "header_only acts \<Longrightarrow> fold wire_step acts w = w\<lparr>wire_header := set_headers acts (wire_header w)\<rparr>"
  by (induction acts arbitrary: w) (auto simp: header_only_def)

lemma wire_headers_status:
  assumes "header_only acts" "\<not> (100 \<le> c \<and> c \<le> 199)"
  shows "wire_status (wire_of (acts @ WriteHeader c # rest)) = Some c"
    "wire_sent (wire_of (acts @ WriteHeader c # rest)) = set_headers acts Map.empty"
proof -
  let ?w = "wire_step (WriteHeader c) (fold wire_step acts fresh_wire)"
  have w: "wire_status ?w = Some c" "wire_sent ?w = set_headers acts Map.empty"
    using assms by (auto simp: fold_header_only wire_commit_def fresh_wire_def)
  show "wire_status (wire_of (acts @ WriteHeader c # rest)) = Some c"
    "wire_sent (wire_of (acts @ WriteHeader c # rest)) = set_headers acts Map.empty"
    using wire_steps_keep [OF w(1), of rest] w(2) by (simp_all add: wire_of_def)
qed

section \<open>Handlers\<close>

text \<open>
  A handler takes its clock readings, the request and the state of the gateway; it returns
  the state, what it did to the writer, and whether it returned or panicked. The readings a
  handler does not make itself it hands on.
\<close>

type_synonym 'g handler = "clock \<Rightarrow> http_request \<Rightarrow> 'g \<Rightarrow> 'g \<times> waction list \<times> unit outcome"

definition from_reading :: "nat \<Rightarrow> clock \<Rightarrow> clock" where
  "from_reading n clk = (\<lambda>i. clk (i + n))"

text \<open>
  The state the handlers share: the backend of the rate limiter, the client store, the
  middleware's map of synchronised limits, the upstream side with its circuit breaker, the
  metrics, and what was logged.
\<close>

datatype log_entry =
    RequestCompleted string string int int string string string string
  | LimiterFailure string go_error
  | LimitFetchFailed string go_error
  | PanicRecovered string string string

record ('l, 's, 'u, 'm) gateway =
  gw_limiter :: 'l
  gw_storage :: 's
  gw_synced :: "string \<rightharpoonup> int"
  gw_upstream :: 'u
  gw_metrics :: 'm
  gw_log :: "log_entry list"

definition log_add :: "log_entry \<Rightarrow> ('l, 's, 'u, 'm) gateway \<Rightarrow> ('l, 's, 'u, 'm) gateway" where
  "log_add e g = g\<lparr>gw_log := gw_log g @ [e]\<rparr>"

section \<open>JSON\<close>

text \<open>
  \<open>json.Encoder\<close> with its default HTML escaping. An invalid byte becomes the six characters
  of an escaped U+FFFD.
\<close>

definition hex_digit :: "nat \<Rightarrow> char" where
  "hex_digit d = (if d < 10 then char_of (48 + d) else char_of (87 + d))"

definition json_u :: "rune \<Rightarrow> string" where
  "json_u r = [CHR 0x5C, CHR ''u'', hex_digit (r div 4096), hex_digit (r div 256 mod 16),
     hex_digit (r div 16 mod 16), hex_digit (r mod 16)]"

definition json_rune :: "rune \<Rightarrow> string" where
  "json_rune r =
     (if r = 34 \<or> r = 92 then [CHR 0x5C, char_of r]
      else if r = 8 then [CHR 0x5C, CHR ''b''] else if r = 12 then [CHR 0x5C, CHR ''f'']
      else if r = 10 then [CHR 0x5C, CHR ''n''] else if r = 13 then [CHR 0x5C, CHR ''r'']
      else if r = 9 then [CHR 0x5C, CHR ''t'']
      else if r < 32 \<or> r = 60 \<or> r = 62 \<or> r = 38 \<or> r = 8232 \<or> r = 8233 then json_u r
      else encode_rune r)"

function json_chars :: "string \<Rightarrow> string" where
  "json_chars s =
     (if s = [] then []
      else let (r, w) = decode_rune s
           in (if r = 65533 \<and> w = 1 then json_u r else json_rune r) @ json_chars (drop w s))"
  by auto
termination
proof (relation "measure length")
  fix s x r w
  assume "s \<noteq> []" "x = decode_rune s" "(r, w) = x"
  then show "(drop w s, s) \<in> measure length"
    using decode_rune_width [of s] by (cases s) (auto simp: prod_eq_iff)
qed simp

declare json_chars.simps [simp del]

definition json_string :: "string \<Rightarrow> string" where
  "json_string s = CHR 0x22 # json_chars s @ [CHR 0x22]"

definition json_member :: "string \<Rightarrow> string \<Rightarrow> string" where
  "json_member k v = json_string k @ '':'' @ v"

text \<open>An object from members in order; \<open>Encode\<close> ends it with a newline.\<close>

fun json_members :: "string list \<Rightarrow> string" where
  "json_members [] = []"
| "json_members [m] = m"
| "json_members (m # ms) = m @ '','' @ json_members ms"

definition json_object :: "string list \<Rightarrow> string" where
  "json_object ms = ''{'' @ json_members ms @ ''}'' @ [CHR 0x0A]"

text \<open>
  No byte of an encoded string ends it early: every quote in it follows a backslash that is
  not itself escaped, and no control character is left.
\<close>

fun json_closed :: "string \<Rightarrow> bool" where
  "json_closed [] = True"
| "json_closed (c # s) =
     (if c = CHR 0x22 \<or> byte_of c < (32 :: nat) then False
      else if c = CHR 0x5C then (case s of [] \<Rightarrow> False | d # t \<Rightarrow> 32 \<le> (byte_of d :: nat) \<and> json_closed t)
      else json_closed s)"

definition plain_char :: "char \<Rightarrow> bool" where
  "plain_char c \<longleftrightarrow> c \<noteq> CHR 0x22 \<and> c \<noteq> CHR 0x5C \<and> 32 \<le> (byte_of c :: nat)"

lemma json_closed_plain: "list_all plain_char a \<Longrightarrow> json_closed b \<Longrightarrow> json_closed (a @ b)"
  by (induction a) (auto simp: plain_char_def)

lemma plain_char_of:
  assumes "32 \<le> (n :: nat)" "n < 256" "n \<noteq> 34" "n \<noteq> 92"
  shows "plain_char (char_of n)"
proof -
  have "byte_of (char_of n) = n" using assms(2) by (rule byte_char_of)
  moreover have "byte_of (CHR 0x22) = (34 :: nat)" "byte_of (CHR 0x5C) = (92 :: nat)" by simp_all
  ultimately show ?thesis using assms unfolding plain_char_def by metis
qed

lemma hex_digit_plain: "d < 16 \<Longrightarrow> plain_char (hex_digit d)"
  by (auto simp: hex_digit_def intro: plain_char_of)

lemma json_u_closed: "r < 65536 \<Longrightarrow> json_closed b \<Longrightarrow> json_closed (json_u r @ b)"
  using json_closed_plain [of "[hex_digit (r div 4096), hex_digit (r div 256 mod 16),
     hex_digit (r div 16 mod 16), hex_digit (r mod 16)]" b]
  by (simp add: json_u_def hex_digit_plain)

lemma encode_rune_plain:
  assumes "32 \<le> r" "r \<noteq> 34" "r \<noteq> 92"
  shows "list_all plain_char (encode_rune r)"
  using assms unfolding encode_rune_def
  by (auto intro!: plain_char_of)

lemma json_rune_closed: "json_closed b \<Longrightarrow> json_closed (json_rune r @ b)"
  using json_u_closed [of r b] json_closed_plain [OF encode_rune_plain [of r], of b]
  by (auto simp: json_rune_def)

lemma json_chars_closed: "json_closed (json_chars s)"
proof (induction s rule: json_chars.induct)
  case (1 s)
  show ?case
  proof (cases "s = []")
    case False
    obtain r w where d: "decode_rune s = (r, w)" by force
    from 1 [OF False d [symmetric] refl] show ?thesis
      using False by (subst json_chars.simps) (auto simp: d json_rune_closed intro: json_u_closed)
  qed (simp add: json_chars.simps)
qed

end
