(* ===== verification/Metrics.thy ===== *)
theory Metrics
  imports Response_Writer Float64
begin

text \<open>
  \<open>internal/metrics/metrics.go\<close>: the collectors, the middleware that counts requests and the
  reduction of paths to a bounded set of labels. The Prometheus client is a parameter,
  \<open>prom_ops\<close>; \<open>prom_accepts\<close> and \<open>prom_counts\<close> state what the code relies on of it.
\<close>

section \<open>Paths\<close>

definition isHexDigit :: "rune \<Rightarrow> bool" where
  "isHexDigit c \<longleftrightarrow> (48 \<le> c \<and> c \<le> 57) \<or> (97 \<le> c \<and> c \<le> 102) \<or> (65 \<le> c \<and> c \<le> 70)"

definition isNumeric :: "string \<Rightarrow> bool" where
  "isNumeric s \<longleftrightarrow> s \<noteq> [] \<and> list_all (\<lambda>c. \<not> (c < 48 \<or> 57 < c)) (runes s)"

definition isUUID :: "string \<Rightarrow> bool" where
  "isUUID s \<longleftrightarrow> length s = 36
     \<and> list_all (\<lambda>(i, c). if i = 8 \<or> i = 13 \<or> i = 18 \<or> i = 23 then c = 45 else isHexDigit c) (range_from 0 s)"

definition isHexID :: "string \<Rightarrow> bool" where
  "isHexID s \<longleftrightarrow> \<not> (length s < 8 \<or> 64 < length s) \<and> list_all isHexDigit (runes s)"

fun split_runes :: "rune list \<Rightarrow> string \<Rightarrow> string list" where
  "split_runes [] current = (if current \<noteq> [] then [current] else [])"
| "split_runes (c # cs) current =
     (if c = 47 then (if current \<noteq> [] then current # split_runes cs [] else split_runes cs [])
      else split_runes cs (current @ encode_rune c))"

definition splitPath :: "string \<Rightarrow> string list" where
  "splitPath path = split_runes (runes path) []"

definition joinPath :: "string list \<Rightarrow> string" where
  "joinPath parts =
     (let sb = concat (map (\<lambda>p. ''/'' @ p) parts) in if sb = [] then ''/'' else sb)"

definition SanitizePath :: "string \<Rightarrow> string" where
  "SanitizePath path =
     (if path = [] then ''/''
      else joinPath (map (\<lambda>part. if isNumeric part \<or> isUUID part \<or> isHexID part then ''{id}'' else part)
        (splitPath path)))"

section \<open>Collectors\<close>

datatype collector_kind = CounterVec | HistogramVec "f64 list" | Gauge

record collector =
  col_kind :: collector_kind
  col_namespace :: string
  col_subsystem :: string
  col_name :: string
  col_help :: string
  col_labels :: "string list"

record 'r metrics_config =
  Enabled :: bool
  Buckets :: "f64 list"
  Namespace :: string
  Registerer :: "'r option"

definition default_buckets :: "f64 list" where
  "default_buckets = map f64_of_rat [5 / 1000, 1 / 100, 25 / 1000, 5 / 100, 1 / 10, 25 / 100, 5 / 10, 1, 25 / 10, 5, 10]"

text \<open>\<open>New\<close>: the registerer it uses and the collectors it registers there, in order.\<close>

definition metrics_New :: "'r \<Rightarrow> 'r metrics_config \<Rightarrow> 'r \<times> collector list" where
  "metrics_New default_reg cfg =
     (let ns = (if Namespace cfg = [] then ''api_gateway'' else Namespace cfg);
          reg = (case Registerer cfg of None \<Rightarrow> default_reg | Some r \<Rightarrow> r);
          buckets = (if Buckets cfg = [] then default_buckets else Buckets cfg)
      in (reg,
        [\<lparr>col_kind = CounterVec, col_namespace = ns, col_subsystem = ''http'', col_name = ''requests_total'',
           col_help = ''Total number of HTTP requests processed'', col_labels = [''method'', ''path'', ''status'']\<rparr>,
         \<lparr>col_kind = HistogramVec buckets, col_namespace = ns, col_subsystem = ''http'',
           col_name = ''request_duration_seconds'', col_help = ''HTTP request latency in seconds'',
           col_labels = [''method'', ''path'']\<rparr>,
         \<lparr>col_kind = Gauge, col_namespace = ns, col_subsystem = ''http'', col_name = ''active_requests'',
           col_help = ''Number of HTTP requests currently being processed'', col_labels = []\<rparr>,
         \<lparr>col_kind = CounterVec, col_namespace = ns, col_subsystem = ''http'', col_name = ''rate_limited_total'',
           col_help = ''Total number of requests rejected due to rate limiting'', col_labels = [''method'', ''path'']\<rparr>]))"

section \<open>The middleware\<close>

text \<open>
  The calls on the collectors: \<open>WithLabelValues(...).Inc()\<close>, \<open>.Observe(x)\<close> and the gauge;
  \<open>WithLabelValues\<close> may panic.
\<close>

record 'm prom_ops =
  RequestsTotal_Inc :: "string list \<Rightarrow> 'm \<Rightarrow> 'm outcome"
  RequestDuration_Observe :: "string list \<Rightarrow> f64 \<Rightarrow> 'm \<Rightarrow> 'm outcome"
  ActiveRequests_Add :: "int \<Rightarrow> 'm \<Rightarrow> 'm"
  RateLimitedTotal_Inc :: "string list \<Rightarrow> 'm \<Rightarrow> 'm outcome"

text \<open>The writer that remembers the status: what it passes on and what it remembers.\<close>

fun responseWriter_act :: "bool \<Rightarrow> waction \<Rightarrow> int \<Rightarrow> int \<times> waction list" where
  "responseWriter_act flusher (WriteHeader code) statusCode = (code, [WriteHeader code])"
| "responseWriter_act flusher FlushW statusCode = (statusCode, if flusher then [FlushW] else [])"
| "responseWriter_act flusher a statusCode = (statusCode, [a])"

fun responseWriter_run :: "bool \<Rightarrow> waction list \<Rightarrow> int \<Rightarrow> int \<times> waction list" where
  "responseWriter_run flusher [] statusCode = (statusCode, [])"
| "responseWriter_run flusher (a # acts) statusCode =
     (let (s, out) = responseWriter_act flusher a statusCode;
          (s', out') = responseWriter_run flusher acts s
      in (s', out @ out'))"

definition responseWriter_Hijack :: "(go_error + 'c) option \<Rightarrow> go_error + 'c" where
  "responseWriter_Hijack h = (case h of Some res \<Rightarrow> res | None \<Rightarrow> Inl ErrNotSupported)"

definition Metrics_Middleware ::
    "'m prom_ops option \<Rightarrow> ('l, 's, 'u, 'm) gateway handler \<Rightarrow> ('l, 's, 'u, 'm) gateway handler" where
  "Metrics_Middleware m inner clk r g =
     (case m of
        None \<Rightarrow> inner clk r g
      | Some p \<Rightarrow>
          let g1 = g\<lparr>gw_metrics := ActiveRequests_Add p 1 (gw_metrics g)\<rparr>;
              (g2, acts, res) = inner (from_reading 2 clk) r g1;
              (statusCode, out) = responseWriter_run True acts 200
          in case res of
               Panic e \<Rightarrow> (g2, out, Panic e)
             | Ret u \<Rightarrow>
                 let dur = duration_seconds (time_sub (clk 1) (clk 0));
                     path = SanitizePath (req_path r)
                 in case RequestsTotal_Inc p [req_method r, path, Itoa statusCode] (gw_metrics g2) of
                      Panic e \<Rightarrow> (g2, out, Panic e)
                    | Ret m1 \<Rightarrow>
                        (case RequestDuration_Observe p [req_method r, path] dur m1 of
                           Panic e \<Rightarrow> (g2\<lparr>gw_metrics := m1\<rparr>, out, Panic e)
                         | Ret m2 \<Rightarrow> (g2\<lparr>gw_metrics := ActiveRequests_Add p (- 1) m2\<rparr>, out, Ret ())))"


section \<open>Splitting and joining\<close>

text \<open>The same split on runes; a part is good if it is not empty and has no slash.\<close>

fun rune_parts :: "rune list \<Rightarrow> rune list \<Rightarrow> rune list list" where
  "rune_parts [] cur = (if cur \<noteq> [] then [cur] else [])"
| "rune_parts (c # cs) cur =
     (if c = 47 then (if cur \<noteq> [] then cur # rune_parts cs [] else rune_parts cs [])
      else rune_parts cs (cur @ [c]))"

definition good_part :: "rune list \<Rightarrow> bool" where
  "good_part p \<longleftrightarrow> p \<noteq> [] \<and> 47 \<notin> set p \<and> list_all scalar p"

lemma split_runes_encode: "split_runes rs (encode cur) = map encode (rune_parts rs cur)"
proof (induction rs cur rule: rune_parts.induct)
  case (2 c cs cur)
  then show ?case by (cases "c = 47") auto
qed simp

lemma splitPath_parts: "splitPath path = map encode (rune_parts (runes path) [])"
  using split_runes_encode [of "runes path" "[]"] by (simp add: splitPath_def)

lemma rune_parts_good:
  "list_all scalar rs \<Longrightarrow> list_all scalar cur \<Longrightarrow> 47 \<notin> set cur \<Longrightarrow> list_all good_part (rune_parts rs cur)"
  by (induction rs cur rule: rune_parts.induct) (auto simp: good_part_def)

lemma rune_parts_segment:
  "47 \<notin> set p \<Longrightarrow> rune_parts (p @ rs) cur = rune_parts rs (cur @ p)"
  "47 \<notin> set p \<Longrightarrow> rune_parts p cur = rune_parts [] (cur @ p)"
  by (induction p arbitrary: cur) auto

lemma rune_parts_join: "list_all good_part ps \<Longrightarrow> rune_parts (concat (map (\<lambda>p. 47 # p) ps)) [] = ps"
proof (induction ps)
  case (Cons p ps)
  then have p: "p \<noteq> []" "47 \<notin> set p" by (auto simp: good_part_def)
  then show ?case using Cons by (cases ps) (auto simp: rune_parts_segment)
qed simp

lemma slash: "encode_rune 47 = ''/''"
  by (simp add: encode_rune_def char_literals)

lemma joinPath_encode:
  assumes "ps \<noteq> []"
  shows "joinPath (map encode ps) = encode (concat (map (\<lambda>p. 47 # p) ps))"
proof -
  have "concat (map (\<lambda>p. ''/'' @ p) (map encode ps)) = encode (concat (map (\<lambda>p. 47 # p) ps))"
    by (induction ps) (simp_all add: slash)
  moreover have "encode (concat (map (\<lambda>p. 47 # p) ps)) \<noteq> []" using assms by (cases ps) simp_all
  ultimately show ?thesis by (simp only: joinPath_def Let_def if_False)
qed

lemma split_join:
  assumes "list_all good_part ps"
  shows "splitPath (joinPath (map encode ps)) = map encode ps"
proof (cases "ps = []")
  case True
  then show ?thesis by (simp add: joinPath_def splitPath_def runes_ascii)
next
  case False
  have "list_all scalar (concat (map (\<lambda>p. 47 # p) ps))"
    using assms by (induction ps) (auto simp: good_part_def scalar_def)
  then have "runes (joinPath (map encode ps)) = concat (map (\<lambda>p. 47 # p) ps)"
    using runes_encode_append [of "concat (map (\<lambda>p. 47 # p) ps)" "[]"] False by (simp add: joinPath_encode)
  then show ?thesis using rune_parts_join [OF assms] by (simp add: splitPath_parts)
qed

lemma joinPath_valid: "list_all good_part ps \<Longrightarrow> valid_utf8 (joinPath (map encode ps))"
proof (cases "ps = []")
  case True
  have "valid_utf8 (encode [47])" by (rule valid_utf8_encode) (simp add: scalar_def)
  with True show ?thesis by (simp add: joinPath_def slash)
next
  case False
  assume "list_all good_part ps"
  then have "list_all scalar (concat (map (\<lambda>p. 47 # p) ps))"
    by (induction ps) (auto simp: good_part_def scalar_def)
  with False show ?thesis by (simp add: joinPath_encode valid_utf8_encode)
qed

definition id_like :: "string \<Rightarrow> bool" where
  "id_like part \<longleftrightarrow> isNumeric part \<or> isUUID part \<or> isHexID part"

definition mask_part :: "string \<Rightarrow> string" where
  "mask_part part = (if id_like part then ''{id}'' else part)"

definition id_runes :: "rune list" where
  "id_runes = [123, 105, 100, 125]"

lemma id_runes: "''{id}'' = encode id_runes" "good_part id_runes"
  by (simp_all add: id_runes_def encode_rune_def good_part_def scalar_def char_literals)

lemma mask_part_id [simp]: "\<not> id_like ''{id}''"
  by (simp add: id_like_def isNumeric_def isUUID_def isHexID_def runes_ascii)

lemma mask_parts:
  assumes "list_all good_part ps"
  shows "\<exists>qs. map mask_part (map encode ps) = map encode qs \<and> list_all good_part qs"
proof -
  have "map mask_part (map encode ps) = map encode (map (\<lambda>p. if id_like (encode p) then id_runes else p) ps)"
    by (simp add: mask_part_def id_runes(1))
  moreover have "list_all good_part (map (\<lambda>p. if id_like (encode p) then id_runes else p) ps)"
    using assms by (auto simp: list_all_iff id_runes(2))
  ultimately show ?thesis by blast
qed

lemma SanitizePath_mask:
  "SanitizePath path = joinPath (map mask_part (splitPath path))"
proof -
  have "mask_part = (\<lambda>part. if isNumeric part \<or> isUUID part \<or> isHexID part then ''{id}'' else part)"
    by (simp add: fun_eq_iff mask_part_def id_like_def)
  then show ?thesis
    by (cases "path = []") (simp_all only: SanitizePath_def, simp_all add: splitPath_def joinPath_def)
qed

lemma SanitizePath_parts:
  "\<exists>qs. list_all good_part qs \<and> SanitizePath path = joinPath (map encode qs)
     \<and> map encode qs = map mask_part (splitPath path)"
proof -
  have "list_all good_part (rune_parts (runes path) [])"
    by (rule rune_parts_good) (simp_all add: runes_scalar)
  from mask_parts [OF this] show ?thesis by (metis SanitizePath_mask splitPath_parts)
qed


section \<open>Counting\<close>

fun last_status :: "int \<Rightarrow> waction list \<Rightarrow> int" where
  "last_status s [] = s"
| "last_status s (WriteHeader c # acts) = last_status c acts"
| "last_status s (a # acts) = last_status s acts"

lemma responseWriter_transparent: "responseWriter_run True acts s = (last_status s acts, acts)"
proof (induction acts arbitrary: s)
  case (Cons a acts)
  then show ?case by (cases a) simp_all
qed simp

lemma last_status_append: "last_status s (as @ bs) = last_status (last_status s as) bs"
  by (induction s as rule: last_status.induct) auto

definition status_free :: "waction list \<Rightarrow> bool" where
  "status_free acts \<longleftrightarrow> (\<forall>c. WriteHeader c \<notin> set acts)"

lemma last_status_free: "status_free acts \<Longrightarrow> last_status s acts = s"
  unfolding status_free_def by (induction s acts rule: last_status.induct) auto

lemma header_only_free: "header_only acts \<Longrightarrow> status_free acts"
  by (auto simp: header_only_def status_free_def)

text \<open>
  What the code relies on of the collectors: with the declared number of labels, all valid
  UTF-8, \<open>WithLabelValues\<close> does not panic, and each call changes what its name says.
\<close>

definition prom_laws :: "'m prom_ops \<Rightarrow> ('m \<Rightarrow> string list \<Rightarrow> nat) \<Rightarrow> ('m \<Rightarrow> int) \<Rightarrow> bool" where
  "prom_laws p requests active \<longleftrightarrow>
     (\<forall>ls m. length ls = 3 \<and> list_all valid_utf8 ls \<longrightarrow>
        (\<exists>m'. RequestsTotal_Inc p ls m = Ret m' \<and> requests m' = (requests m)(ls := Suc (requests m ls))
          \<and> active m' = active m))
     \<and> (\<forall>ls x m. length ls = 2 \<and> list_all valid_utf8 ls \<longrightarrow>
        (\<exists>m'. RequestDuration_Observe p ls x m = Ret m' \<and> requests m' = requests m \<and> active m' = active m))
     \<and> (\<forall>n m. requests (ActiveRequests_Add p n m) = requests m \<and> active (ActiveRequests_Add p n m) = active m + n)
     \<and> (\<forall>ls m. length ls = 2 \<and> list_all valid_utf8 ls \<longrightarrow>
        (\<exists>m'. RateLimitedTotal_Inc p ls m = Ret m' \<and> requests m' = requests m \<and> active m' = active m))"

lemma SanitizePath_valid: "valid_utf8 (SanitizePath path)"
  using SanitizePath_parts [of path] joinPath_valid by metis

lemma prom_lawsD:
  assumes "prom_laws p requests active"
  shows "valid_utf8 a \<Longrightarrow> valid_utf8 b \<Longrightarrow> valid_utf8 c \<Longrightarrow>
      \<exists>m'. RequestsTotal_Inc p [a, b, c] m = Ret m' \<and> requests m' = (requests m)([a, b, c] := Suc (requests m [a, b, c]))
        \<and> active m' = active m"
    and "valid_utf8 a \<Longrightarrow> valid_utf8 b \<Longrightarrow>
      \<exists>m'. RequestDuration_Observe p [a, b] x m = Ret m' \<and> requests m' = requests m \<and> active m' = active m"
    and "requests (ActiveRequests_Add p n m) = requests m" "active (ActiveRequests_Add p n m) = active m + n"
    and "valid_utf8 a \<Longrightarrow> valid_utf8 b \<Longrightarrow>
      \<exists>m'. RateLimitedTotal_Inc p [a, b] m = Ret m' \<and> requests m' = requests m \<and> active m' = active m"
  using assms unfolding prom_laws_def by (simp_all add: list_all_def)

lemma Metrics_Middleware_counts:
  assumes laws: "prom_laws p requests active" and m: "valid_utf8 (req_method r)"
    and n: "inner (from_reading 2 clk) r (g\<lparr>gw_metrics := ActiveRequests_Add p 1 (gw_metrics g)\<rparr>) = (g2, acts, Ret ())"
  shows "\<exists>m'. Metrics_Middleware (Some p) inner clk r g = (g2\<lparr>gw_metrics := m'\<rparr>, acts, Ret ())
    \<and> active m' = active (gw_metrics g2) - 1
    \<and> requests m' = (requests (gw_metrics g2))([req_method r, SanitizePath (req_path r), Itoa (last_status 200 acts)] :=
        Suc (requests (gw_metrics g2) [req_method r, SanitizePath (req_path r), Itoa (last_status 200 acts)]))"
proof -
  note l = prom_lawsD [OF laws]
  obtain m1 where m1: "RequestsTotal_Inc p [req_method r, SanitizePath (req_path r), Itoa (last_status 200 acts)]
      (gw_metrics g2) = Ret m1"
    "requests m1 = (requests (gw_metrics g2))([req_method r, SanitizePath (req_path r), Itoa (last_status 200 acts)] :=
        Suc (requests (gw_metrics g2) [req_method r, SanitizePath (req_path r), Itoa (last_status 200 acts)]))"
    "active m1 = active (gw_metrics g2)"
    using l(1) [OF m SanitizePath_valid valid_utf8_ascii [OF is_ascii_Itoa]] by metis
  obtain m2 where "RequestDuration_Observe p [req_method r, SanitizePath (req_path r)]
      (duration_seconds (time_sub (clk 1) (clk 0))) m1 = Ret m2" "requests m2 = requests m1" "active m2 = active m1"
    using l(2) [OF m SanitizePath_valid] by metis
  with m1 show ?thesis
    by (intro exI [of _ "ActiveRequests_Add p (- 1) m2"])
      (simp add: Metrics_Middleware_def n responseWriter_transparent Let_def l(3,4))
qed

section \<open>Properties\<close>

text \<open>
  C29. Path labels: sanitising a path keeps its non-empty segments in order, with invalid
  bytes replaced and every numeric, UUID or hexadecimal segment replaced by \<open>{id}\<close>; none of
  these is left, the result is valid UTF-8, and sanitising it again changes nothing.
\<close>

theorem sanitize_path_segments:
  "splitPath (SanitizePath path) =
     map (\<lambda>part. if isNumeric part \<or> isUUID part \<or> isHexID part then ''{id}'' else part) (splitPath path)
   \<and> list_all (\<lambda>part. \<not> (isNumeric part \<or> isUUID part \<or> isHexID part)) (splitPath (SanitizePath path))
   \<and> valid_utf8 (SanitizePath path) \<and> SanitizePath (SanitizePath path) = SanitizePath path"
proof -
  have mp: "mask_part = (\<lambda>part. if isNumeric part \<or> isUUID part \<or> isHexID part then ''{id}'' else part)"
    by (simp add: fun_eq_iff mask_part_def id_like_def)
  obtain qs where qs: "list_all good_part qs" "SanitizePath path = joinPath (map encode qs)"
    "map encode qs = map mask_part (splitPath path)" using SanitizePath_parts by blast
  have sp: "splitPath (SanitizePath path) = map mask_part (splitPath path)"
    using split_join [OF qs(1)] qs(2,3) by simp
  have not_id: "\<not> id_like (mask_part x)" for x by (simp add: mask_part_def)
  have idem: "mask_part (mask_part x) = mask_part x" for x
    by (simp add: mask_part_def)
  have "SanitizePath (SanitizePath path) = joinPath (map mask_part (map mask_part (splitPath path)))"
    by (subst SanitizePath_mask) (simp only: sp)
  also have "\<dots> = SanitizePath path" by (simp add: idem SanitizePath_mask comp_def)
  finally have "SanitizePath (SanitizePath path) = SanitizePath path" .
  moreover have "list_all (\<lambda>part. \<not> id_like part) (map mask_part (splitPath path))"
    using not_id by (simp add: list_all_iff)
  ultimately show ?thesis using sp SanitizePath_valid unfolding mp id_like_def by simp
qed

text \<open>
  C30. The metrics middleware is transparent and exact for a handler that returns: the
  writer sees the handler's actions unchanged, one request is counted under the method, the
  sanitised path and the last status the handler wrote (200 if none), no label makes the
  collectors panic whatever bytes the path has, and the gauge of active requests is back at
  its value.
\<close>

theorem metrics_middleware_counts:
  assumes "prom_laws p requests active" "valid_utf8 (req_method r)"
    and "inner (from_reading 2 clk) r (g\<lparr>gw_metrics := ActiveRequests_Add p 1 (gw_metrics g)\<rparr>) = (g2, acts, Ret ())"
    and "requests (gw_metrics g2) = requests (gw_metrics g)" "active (gw_metrics g2) = active (gw_metrics g) + 1"
  shows "\<exists>m'. Metrics_Middleware (Some p) inner clk r g = (g2\<lparr>gw_metrics := m'\<rparr>, acts, Ret ())
    \<and> active m' = active (gw_metrics g)
    \<and> requests m' = (requests (gw_metrics g))([req_method r, SanitizePath (req_path r), Itoa (last_status 200 acts)] :=
        Suc (requests (gw_metrics g) [req_method r, SanitizePath (req_path r), Itoa (last_status 200 acts)]))"
  using Metrics_Middleware_counts [where inner = inner, OF assms(1-3)] assms(4,5) by simp

text \<open>Collectors in memory, to evaluate the middleware on.\<close>

record table_metrics =
  tm_requests :: "string list \<Rightarrow> nat"
  tm_active :: int
  tm_limited :: "string list \<Rightarrow> nat"

definition table_prom :: "table_metrics prom_ops" where
  "table_prom = \<lparr>
     RequestsTotal_Inc = (\<lambda>ls m. if list_all valid_utf8 ls
        then Ret (m\<lparr>tm_requests := (tm_requests m)(ls := Suc (tm_requests m ls))\<rparr>) else Panic ''label''),
     RequestDuration_Observe = (\<lambda>ls x m. if list_all valid_utf8 ls then Ret m else Panic ''label''),
     ActiveRequests_Add = (\<lambda>n m. m\<lparr>tm_active := tm_active m + n\<rparr>),
     RateLimitedTotal_Inc = (\<lambda>ls m. if list_all valid_utf8 ls
        then Ret (m\<lparr>tm_limited := (tm_limited m)(ls := Suc (tm_limited m ls))\<rparr>) else Panic ''label'')\<rparr>"

lemma table_prom_laws: "prom_laws table_prom tm_requests tm_active"
  by (simp add: prom_laws_def table_prom_def)

definition no_metrics :: table_metrics where
  "no_metrics = \<lparr>tm_requests = (\<lambda>ls. 0), tm_active = 0, tm_limited = (\<lambda>ls. 0)\<rparr>"

definition get_request :: "string \<Rightarrow> http_request" where
  "get_request path = \<lparr>req_method = ''GET'', req_path = path, req_query = [], req_header = Map.empty, req_host = ''h'',
     remoteAddr = ''1.2.3.4:5'', req_body = None, getBody = None\<rparr>"

definition teapot :: "('l, 's, 'u, 'm) gateway handler" where
  "teapot clk r g = (g, [WriteHeader 418, WriteBody ''short''], Ret ())"

definition empty_gateway :: "(unit, unit, unit, table_metrics) gateway" where
  "empty_gateway = \<lparr>gw_limiter = (), gw_storage = (), gw_synced = Map.empty, gw_upstream = (),
     gw_metrics = no_metrics, gw_log = []\<rparr>"

theorem metrics_middleware_counts_witness:
  "tm_requests (gw_metrics (fst (Metrics_Middleware (Some table_prom) teapot (\<lambda>i. 0) (get_request ''/users/42'') empty_gateway)))
     [''GET'', SanitizePath ''/users/42'', ''418''] = 1"
proof -
  have g: "valid_utf8 (req_method (get_request ''/users/42''))"
    by (rule valid_utf8_ascii) (simp add: get_request_def is_ascii_def)
  have i: "Itoa 418 = ''418''"
    by (simp add: Itoa_def nat_dec.simps digit_def char_of_eqI)
  show ?thesis
    using metrics_middleware_counts [OF table_prom_laws g, of teapot "\<lambda>i. 0" empty_gateway
        "empty_gateway\<lparr>gw_metrics := no_metrics\<lparr>tm_active := 1\<rparr>\<rparr>" "[WriteHeader 418, WriteBody ''short'']"]
    by (auto simp: teapot_def empty_gateway_def table_prom_def no_metrics_def get_request_def i)
qed

end
