(* ===== verification/Client_Storage.thy ===== *)
theory Client_Storage
  imports Go_Strings "HOL-Library.Multiset"
begin

text \<open>
  Client limits: the Postgres store of \<open>internal/storage/postgres.go\<close> and the cache in
  front of it, \<open>internal/storage/l1_cached_storage.go\<close>. The database driver is a parameter;
  \<open>clients_table\<close> states what the code relies on of it. The cache is also given as a step
  relation, because \<open>GetClientLimit\<close> releases its lock while it asks the store.
\<close>

section \<open>The Postgres store\<close>

record postgres_config =
  pgHost :: string
  pgPort :: int
  pgUser :: string
  pgPassword :: string
  pgDatabase :: string
  pgSSLMode :: string
  pgMaxOpenConns :: int
  pgMaxIdleConns :: int
  pgConnMaxLifetime :: duration
  pgConnMaxIdleTime :: duration

text \<open>
  The statements the store executes and the pool settings it makes; \<open>sql_query\<close> is the one
  query \<open>SELECT rate_limit FROM clients WHERE api_key = $1\<close> with its \<open>Scan\<close>.
\<close>

datatype sql_stmt = UpsertStmt string int | DeleteStmt string

datatype pool_setting =
  SetMaxOpenConns int | SetMaxIdleConns int | SetConnMaxLifetime duration | SetConnMaxIdleTime duration

record 'd sql_driver =
  sql_open :: "string \<Rightarrow> go_error + 'd"
  sql_set :: "pool_setting \<Rightarrow> 'd \<Rightarrow> 'd"
  sql_ping :: "duration \<Rightarrow> 'd \<Rightarrow> 'd \<times> go_error option"
  sql_query :: "string \<Rightarrow> 'd \<Rightarrow> 'd \<times> (go_error + int)"
  sql_exec :: "sql_stmt \<Rightarrow> 'd \<Rightarrow> 'd \<times> go_error option"
  sql_close :: "'d \<Rightarrow> 'd \<times> go_error option"

text \<open>
  \<open>validateConfig\<close> takes the configuration by value: its default for \<open>SSLMode\<close> is set
  on the copy, which the function then drops.
\<close>

definition validateConfig :: "postgres_config \<Rightarrow> go_error option" where
  "validateConfig cfg =
     (if pgHost cfg = [] then Some (ErrorString ''host cannot be empty'')
      else if pgPort cfg \<le> 0 \<or> 65535 < pgPort cfg then Some (ErrorString (''invalid port '' @ Itoa (pgPort cfg)))
      else if pgUser cfg = [] then Some (ErrorString ''user cannot be empty'')
      else if pgDatabase cfg = [] then Some (ErrorString ''database cannot be empty'')
      else let cfg' = (if pgSSLMode cfg = [] then cfg\<lparr>pgSSLMode := ''disable''\<rparr> else cfg) in None)"

definition connStr :: "postgres_config \<Rightarrow> string" where
  "connStr cfg = ''host='' @ pgHost cfg @ '' port='' @ Itoa (pgPort cfg) @ '' user='' @ pgUser cfg
     @ '' password='' @ pgPassword cfg @ '' dbname='' @ pgDatabase cfg @ '' sslmode='' @ pgSSLMode cfg"

definition pool_settings :: "postgres_config \<Rightarrow> pool_setting list" where
  "pool_settings cfg =
     (if 0 < pgMaxOpenConns cfg then [SetMaxOpenConns (pgMaxOpenConns cfg)] else [])
     @ (if 0 < pgMaxIdleConns cfg then [SetMaxIdleConns (pgMaxIdleConns cfg)] else [])
     @ (if 0 < pgConnMaxLifetime cfg then [SetConnMaxLifetime (pgConnMaxLifetime cfg)] else [])
     @ (if 0 < pgConnMaxIdleTime cfg then [SetConnMaxIdleTime (pgConnMaxIdleTime cfg)] else [])"

definition NewPostgres :: "'d sql_driver \<Rightarrow> postgres_config \<Rightarrow> go_error + 'd" where
  "NewPostgres drv cfg =
     (case validateConfig cfg of
        Some err \<Rightarrow> Inl (WrapError ''invalid postgres config'' err)
      | None \<Rightarrow>
          (case sql_open drv (connStr cfg) of
             Inl err \<Rightarrow> Inl (WrapError ''open database connection'' err)
           | Inr db \<Rightarrow>
               let db' = fold (sql_set drv) (pool_settings cfg) db in
               (case sql_ping drv (5 * second) db' of
                  (db'', Some dbErr) \<Rightarrow>
                    let closed = sql_close drv db'' in Inl (WrapError ''ping database'' dbErr)
                | (db'', None) \<Rightarrow> Inr db'')))"

definition Postgres_Close :: "'d sql_driver \<Rightarrow> 'd option \<Rightarrow> 'd option \<times> go_error option" where
  "Postgres_Close drv p =
     (case p of None \<Rightarrow> (None, None) | Some db \<Rightarrow> let (db', err) = sql_close drv db in (Some db', err))"

definition Postgres_GetClientLimit :: "'d sql_driver \<Rightarrow> clock \<Rightarrow> string \<Rightarrow> 'd \<Rightarrow> 'd \<times> int \<times> go_error option" where
  "Postgres_GetClientLimit drv clk apiKey db =
     (if apiKey = [] then (db, 0, Some ErrInvalidAPIKey)
      else case sql_query drv apiKey db of
        (db', Inl err) \<Rightarrow>
          if errors_is err ErrNoRows then (db', 0, Some ErrNotFound)
          else (db', 0, Some (WrapError ''query client limit'' err))
      | (db', Inr limit) \<Rightarrow>
          if limit \<le> 0
          then (db', 0, Some (ErrorString (''invalid rate limit value '' @ Itoa limit @ '' for client '' @ apiKey)))
          else (db', limit, None))"

definition Postgres_UpsertClient :: "'d sql_driver \<Rightarrow> string \<Rightarrow> int \<Rightarrow> 'd \<Rightarrow> 'd \<times> go_error option" where
  "Postgres_UpsertClient drv apiKey limit db = sql_exec drv (UpsertStmt apiKey limit) db"

definition Postgres_DeleteClient :: "'d sql_driver \<Rightarrow> string \<Rightarrow> 'd \<Rightarrow> 'd \<times> go_error option" where
  "Postgres_DeleteClient drv apiKey db = sql_exec drv (DeleteStmt apiKey) db"

definition Postgres_GetClientLimitPrepared ::
    "'d sql_driver \<Rightarrow> clock \<Rightarrow> string \<Rightarrow> 'd \<Rightarrow> 'd \<times> int \<times> go_error option" where
  "Postgres_GetClientLimitPrepared drv clk apiKey db = Postgres_GetClientLimit drv clk apiKey db"

definition Postgres_HealthCheck :: "'d sql_driver \<Rightarrow> 'd \<Rightarrow> 'd \<times> go_error option" where
  "Postgres_HealthCheck drv db =
     (case sql_ping drv (2 * second) db of
        (db', Some err) \<Rightarrow> (db', Some (WrapError ''database health check'' err))
      | (db', None) \<Rightarrow> (db', None))"

text \<open>
  What the statements do to the table \<open>clients\<close>, seen as a map from key to limit: a query
  that answers, answers from the table, and says \<open>ErrNoRows\<close> only where there is no row; a
  statement that succeeds has its effect. Nothing is said of one that fails.
\<close>

definition clients_table :: "'d sql_driver \<Rightarrow> ('d \<Rightarrow> string \<rightharpoonup> int) \<Rightarrow> bool" where
  "clients_table drv rows \<longleftrightarrow>
     (\<forall>k db db' r. sql_query drv k db = (db', r) \<longrightarrow> rows db' = rows db
        \<and> (case r of Inr n \<Rightarrow> rows db k = Some n | Inl e \<Rightarrow> errors_is e ErrNoRows \<longrightarrow> rows db k = None))
     \<and> (\<forall>k n db db'. sql_exec drv (UpsertStmt k n) db = (db', None) \<longrightarrow> rows db' = (rows db)(k \<mapsto> n))
     \<and> (\<forall>k db db'. sql_exec drv (DeleteStmt k) db = (db', None) \<longrightarrow> rows db' = (rows db)(k := None))"

section \<open>The interface ClientStore\<close>

text \<open>
  What a client of a \<open>ClientStore\<close> may rely on: an empty key is refused, an error comes with
  the limit 0, and a limit is never negative.
\<close>

type_synonym 's get_limit = "clock \<Rightarrow> string \<Rightarrow> 's \<Rightarrow> 's \<times> int \<times> go_error option"

locale client_store =
  fixes get :: "'s get_limit" and ok :: "'s \<Rightarrow> bool"
  assumes get_ok: "ok s \<Longrightarrow> get clk k s = (s', v, err) \<Longrightarrow> ok s'"
    and get_empty: "ok s \<Longrightarrow> get clk [] s = (s', v, err) \<Longrightarrow> err = Some ErrInvalidAPIKey"
    and get_error: "ok s \<Longrightarrow> get clk k s = (s', v, err) \<Longrightarrow> err \<noteq> None \<Longrightarrow> v = 0"
    and get_limit: "ok s \<Longrightarrow> get clk k s = (s', v, err) \<Longrightarrow> 0 \<le> v"

interpretation pg: client_store "Postgres_GetClientLimit drv" "\<lambda>_. True"
  by unfold_locales (auto simp: Postgres_GetClientLimit_def split: if_splits prod.splits sum.splits)

section \<open>The cache\<close>

record cacheEntry =
  entry_limit :: int
  expiresAt :: time

record 's cached_store =
  cs_store :: 's
  cs_ttl :: duration
  cs_cache :: "string \<rightharpoonup> cacheEntry"
  cs_stopped :: bool

definition NewCachedStore :: "'s \<Rightarrow> duration \<Rightarrow> 's cached_store" where
  "NewCachedStore st t =
     \<lparr>cs_store = st, cs_ttl = (if t \<le> 0 then minute else t), cs_cache = Map.empty, cs_stopped = False\<rparr>"

text \<open>
  The three sections of \<open>GetClientLimit\<close>: the lookup under the read lock, the call of the
  store under no lock, and the update under the write lock.
\<close>

definition cached_lookup :: "time \<Rightarrow> string \<Rightarrow> (string \<rightharpoonup> cacheEntry) \<Rightarrow> int option" where
  "cached_lookup now apiKey c =
     (case c apiKey of Some entry \<Rightarrow> if now < expiresAt entry then Some (entry_limit entry) else None
      | None \<Rightarrow> None)"

definition cached_update :: "time \<Rightarrow> duration \<Rightarrow> string \<Rightarrow> int \<times> go_error option
    \<Rightarrow> (string \<rightharpoonup> cacheEntry) \<Rightarrow> (string \<rightharpoonup> cacheEntry) \<times> int \<times> go_error option" where
  "cached_update now t apiKey r c =
     (case r of
        (v, Some err) \<Rightarrow>
          if errors_is err ErrNotFound
          then (c(apiKey \<mapsto> \<lparr>entry_limit = 0, expiresAt = now + t\<rparr>), 0, Some err)
          else (c, 0, Some err)
      | (v, None) \<Rightarrow> (c(apiKey \<mapsto> \<lparr>entry_limit = v, expiresAt = now + t\<rparr>), v, None))"

text \<open>
  \<open>clk 0\<close> is the reading that is compared with the entry, \<open>clk 1\<close> the one the new entry's
  lifetime starts at; the store makes the readings from \<open>clk 2\<close> on.
\<close>

definition CachedStore_GetClientLimit :: "'s get_limit \<Rightarrow> 's cached_store get_limit" where
  "CachedStore_GetClientLimit get clk apiKey cs =
     (if apiKey = [] then (cs, 0, Some ErrInvalidAPIKey)
      else case cached_lookup (clk 0) apiKey (cs_cache cs) of
        Some v \<Rightarrow> (cs, v, None)
      | None \<Rightarrow>
          let (st, r) = get (\<lambda>i. clk (i + 2)) apiKey (cs_store cs);
              (c, v, err) = cached_update (clk 1) (cs_ttl cs) apiKey r (cs_cache cs)
          in (cs\<lparr>cs_store := st, cs_cache := c\<rparr>, v, err))"

definition CachedStore_Invalidate :: "string \<Rightarrow> 's cached_store \<Rightarrow> 's cached_store" where
  "CachedStore_Invalidate apiKey cs = cs\<lparr>cs_cache := (cs_cache cs)(apiKey := None)\<rparr>"

definition CachedStore_Close :: "'s cached_store \<Rightarrow> 's cached_store \<times> go_error option" where
  "CachedStore_Close cs = (cs\<lparr>cs_stopped := True\<rparr>, None)"

definition cached_sweep :: "time \<Rightarrow> (string \<rightharpoonup> cacheEntry) \<Rightarrow> (string \<rightharpoonup> cacheEntry)" where
  "cached_sweep now c = (\<lambda>key. case c key of
       None \<Rightarrow> None | Some entry \<Rightarrow> if expiresAt entry < now then None else Some entry)"

text \<open>The sweeping goroutine: \<open>None\<close> is the stop channel, \<open>Some now\<close> a tick.\<close>

fun CachedStore_cleanupLoop :: "time option list \<Rightarrow> 's cached_store \<Rightarrow> 's cached_store" where
  "CachedStore_cleanupLoop [] cs = cs"
| "CachedStore_cleanupLoop (None # es) cs = cs"
| "CachedStore_cleanupLoop (Some now # es) cs =
     CachedStore_cleanupLoop es (cs\<lparr>cs_cache := cached_sweep now (cs_cache cs)\<rparr>)"


text \<open>Behind the cache every store keeps the contract of the interface.\<close>

definition cached_ok :: "('s \<Rightarrow> bool) \<Rightarrow> 's cached_store \<Rightarrow> bool" where
  "cached_ok ok cs \<longleftrightarrow> ok (cs_store cs) \<and> (\<forall>k e. cs_cache cs k = Some e \<longrightarrow> 0 \<le> entry_limit e)"

context client_store
begin

lemma cached_step:
  assumes "cached_ok ok cs" "CachedStore_GetClientLimit get clk k cs = (cs', v, err)"
  shows "cached_ok ok cs' \<and> 0 \<le> v \<and> (err \<noteq> None \<longrightarrow> v = 0) \<and> (k = [] \<longrightarrow> err = Some ErrInvalidAPIKey)"
proof (cases "k = [] \<or> (\<exists>w. cached_lookup (clk 0) k (cs_cache cs) = Some w)")
  case True
  with assms show ?thesis
    by (auto simp: CachedStore_GetClientLimit_def cached_ok_def cached_lookup_def split: if_splits option.splits)
next
  case False
  obtain st w e where g: "get (\<lambda>i. clk (i + 2)) k (cs_store cs) = (st, w, e)" by (metis prod_cases3)
  have "ok st" "0 \<le> w" using assms(1) get_ok [OF _ g] get_limit [OF _ g] by (auto simp: cached_ok_def)
  with False assms g show ?thesis
    by (auto simp: CachedStore_GetClientLimit_def cached_ok_def cached_update_def split: option.splits if_splits)
qed

lemma cached_client_store: "client_store (CachedStore_GetClientLimit get) (cached_ok ok)"
  by unfold_locales (use cached_step in blast)+

end

interpretation pgc: client_store "CachedStore_GetClientLimit (Postgres_GetClientLimit drv)" "cached_ok (\<lambda>_. True)"
  by (rule pg.cached_client_store)

section \<open>The cache under concurrency\<close>

text \<open>
  \<open>answer t k\<close> is what the store answers to a query for \<open>k\<close> at time \<open>t\<close>. A request
  that misses is in flight until it has updated the cache: first without, then with the
  answer and the time it was given. Requests, invalidations and sweeps interleave freely, and
  the clock of the process moves forward.
\<close>

datatype flight = Asking string | Answered string time "int \<times> go_error option"

record cache_sys =
  sys_cache :: "string \<rightharpoonup> cacheEntry"
  flights :: "flight multiset"
  sys_now :: time

inductive cache_step :: "duration \<Rightarrow> (time \<Rightarrow> string \<Rightarrow> int \<times> go_error option) \<Rightarrow> cache_sys \<Rightarrow> cache_sys \<Rightarrow> bool"
  for t :: duration and answer :: "time \<Rightarrow> string \<Rightarrow> int \<times> go_error option" where
  advance: "sys_now s \<le> now \<Longrightarrow> cache_step t answer s (s\<lparr>sys_now := now\<rparr>)"
| miss: "k \<noteq> [] \<Longrightarrow> cached_lookup (sys_now s) k (sys_cache s) = None \<Longrightarrow>
    cache_step t answer s (s\<lparr>flights := add_mset (Asking k) (flights s)\<rparr>)"
| asked: "Asking k \<in># flights s \<Longrightarrow>
    cache_step t answer s (s\<lparr>flights := add_mset (Answered k (sys_now s) (answer (sys_now s) k))
      (flights s - {#Asking k#})\<rparr>)"
| update: "Answered k tq r \<in># flights s \<Longrightarrow>
    cache_step t answer s (s\<lparr>sys_cache := fst (cached_update (sys_now s) t k r (sys_cache s)),
      flights := flights s - {#Answered k tq r#}\<rparr>)"
| invalidate: "cache_step t answer s (s\<lparr>sys_cache := (sys_cache s)(k := None)\<rparr>)"
| sweep: "cache_step t answer s (s\<lparr>sys_cache := cached_sweep (sys_now s) (sys_cache s)\<rparr>)"

inductive_cases cache_stepE: "cache_step t answer s s'"

inductive cache_reach :: "duration \<Rightarrow> (time \<Rightarrow> string \<Rightarrow> int \<times> go_error option) \<Rightarrow> cache_sys \<Rightarrow> cache_sys \<Rightarrow> bool"
  for t answer s0 where
  start: "cache_reach t answer s0 s0"
| step: "cache_reach t answer s0 s \<Longrightarrow> cache_step t answer s s' \<Longrightarrow> cache_reach t answer s0 s'"

text \<open>What an entry says of the store's answer: the limit, or 0 for a client it does not know.\<close>

fun answer_limit :: "int \<times> go_error option \<Rightarrow> int option" where
  "answer_limit (v, None) = Some v"
| "answer_limit (v, Some err) = (if errors_is err ErrNotFound then Some 0 else None)"

definition entry_from :: "duration \<Rightarrow> (time \<Rightarrow> string \<Rightarrow> int \<times> go_error option) \<Rightarrow> time \<Rightarrow> string \<Rightarrow> cacheEntry \<Rightarrow> bool" where
  "entry_from t answer now k e \<longleftrightarrow>
     (\<exists>tq tu. tq \<le> tu \<and> tu \<le> now \<and> expiresAt e = tu + t \<and> answer_limit (answer tq k) = Some (entry_limit e))"

definition cache_inv :: "duration \<Rightarrow> (time \<Rightarrow> string \<Rightarrow> int \<times> go_error option) \<Rightarrow> cache_sys \<Rightarrow> bool" where
  "cache_inv t answer s \<longleftrightarrow>
     (\<forall>k e. sys_cache s k = Some e \<longrightarrow> entry_from t answer (sys_now s) k e)
     \<and> (\<forall>k tq r. Answered k tq r \<in># flights s \<longrightarrow> tq \<le> sys_now s \<and> r = answer tq k)"

lemma cache_invD:
  assumes "cache_inv t answer s"
  shows "sys_cache s k = Some e \<Longrightarrow> entry_from t answer (sys_now s) k e"
    and "Answered k tq r \<in># flights s \<Longrightarrow> tq \<le> sys_now s \<and> r = answer tq k"
  using assms unfolding cache_inv_def by blast+

lemma entry_from_mono: "entry_from t answer now k e \<Longrightarrow> now \<le> now' \<Longrightarrow> entry_from t answer now' k e"
  unfolding entry_from_def by force

lemma cached_update_from:
  assumes "fst (cached_update now t k (answer tq k) c) k' = Some e" "tq \<le> now"
    and "c k' = Some e \<Longrightarrow> entry_from t answer now k' e"
  shows "entry_from t answer now k' e"
proof (cases "answer tq k")
  case (Pair v err)
  have "entry_from t answer now k \<lparr>entry_limit = w, expiresAt = now + t\<rparr>"
    if "answer_limit (v, err) = Some w" for w
    using that Pair assms(2) by (auto simp: entry_from_def)
  with Pair assms(1,3) show ?thesis
    by (cases err) (auto simp: cached_update_def split: if_splits)
qed

lemma cache_inv_step:
  assumes "cache_step t answer s s'" "cache_inv t answer s"
  shows "cache_inv t answer s'"
  using assms
proof (cases rule: cache_step.cases)
  case (advance now)
  with assms(2) show ?thesis by (fastforce simp: cache_inv_def intro: entry_from_mono)
next
  case (update k tq r)
  then have r: "tq \<le> sys_now s" "r = answer tq k" using cache_invD(2) [OF assms(2)] by auto
  show ?thesis unfolding cache_inv_def
  proof (intro conjI allI impI)
    fix k' e
    assume "sys_cache s' k' = Some e"
    then show "entry_from t answer (sys_now s') k' e"
      using cached_update_from [of "sys_now s" t k answer tq "sys_cache s" k' e] update r assms(2)
      by (simp add: cache_inv_def)
  next
    fix k' tq' r'
    assume "Answered k' tq' r' \<in># flights s'"
    then have "Answered k' tq' r' \<in># flights s" using update by (auto dest: in_diffD)
    then show "tq' \<le> sys_now s'" "r' = answer tq' k'"
      using update cache_invD(2) [OF assms(2)] by auto
  qed
next
  case sweep
  with assms(2) show ?thesis
    by (auto simp: cache_inv_def cached_sweep_def split: option.splits if_splits)
qed (auto simp: cache_inv_def dest: in_diffD split: if_splits)

lemma cache_inv_reach:
  "cache_reach t answer s0 s \<Longrightarrow> cache_inv t answer s0 \<Longrightarrow> cache_inv t answer s"
  by (induction rule: cache_reach.induct) (auto intro: cache_inv_step)


definition cold_cache :: "time \<Rightarrow> cache_sys" where
  "cold_cache now = \<lparr>sys_cache = Map.empty, flights = {#}, sys_now = now\<rparr>"

lemma cold_cache_inv: "cache_inv t answer (cold_cache now)"
  by (simp add: cache_inv_def cold_cache_def)

section \<open>Properties\<close>

text \<open>
  C19. A limit served from the cache is a recent answer of the store: whatever requests,
  invalidations and sweeps interleave on a cache that started empty, a hit returns the limit
  of an answer the store gave to this key (0 when it did not know the client), and the entry
  was written less than the cache's lifetime ago. No error other than "not found" is ever
  served from the cache.
\<close>

theorem cached_store_staleness:
  assumes "cache_reach t answer (cold_cache t0) s" "cached_lookup (sys_now s) k (sys_cache s) = Some v"
  shows "\<exists>tq tu. answer_limit (answer tq k) = Some v \<and> tq \<le> tu \<and> tu \<le> sys_now s \<and> sys_now s < tu + t"
proof -
  obtain e where "sys_cache s k = Some e" "v = entry_limit e" "sys_now s < expiresAt e"
    using assms(2) by (auto simp: cached_lookup_def split: option.splits if_splits)
  then show ?thesis
    using cache_invD(1) [OF cache_inv_reach [OF assms(1) cold_cache_inv]]
    by (fastforce simp: entry_from_def)
qed

text \<open>One miss, from the lookup to the update, as steps of the relation.\<close>

lemma fill_cache:
  assumes "k \<noteq> []" "answer now k = (v, None)"
  shows "cache_reach t answer (cold_cache now)
    ((cold_cache now)\<lparr>flights := {#Answered k now (v, None)#}\<rparr>)"
    "cache_step t answer (s\<lparr>flights := {#Answered k tq (v, None)#}\<rparr>)
      (s\<lparr>sys_cache := (sys_cache s)(k \<mapsto> \<lparr>entry_limit = v, expiresAt = sys_now s + t\<rparr>), flights := {#}\<rparr>)"
proof -
  have "cache_step t answer (cold_cache now) ((cold_cache now)\<lparr>flights := {#Asking k#}\<rparr>)"
    using cache_step.miss [of k "cold_cache now" t answer] assms(1)
    by (simp add: cold_cache_def cached_lookup_def)
  moreover have "cache_step t answer ((cold_cache now)\<lparr>flights := {#Asking k#}\<rparr>)
      ((cold_cache now)\<lparr>flights := {#Answered k now (v, None)#}\<rparr>)"
    using cache_step.asked [of k "(cold_cache now)\<lparr>flights := {#Asking k#}\<rparr>" t answer] assms(2)
    by (simp add: cold_cache_def)
  ultimately show "cache_reach t answer (cold_cache now)
    ((cold_cache now)\<lparr>flights := {#Answered k now (v, None)#}\<rparr>)"
    by (blast intro: cache_reach.intros)
  show "cache_step t answer (s\<lparr>flights := {#Answered k tq (v, None)#}\<rparr>)
      (s\<lparr>sys_cache := (sys_cache s)(k \<mapsto> \<lparr>entry_limit = v, expiresAt = sys_now s + t\<rparr>), flights := {#}\<rparr>)"
    using cache_step.update [of k tq "(v, None)" "s\<lparr>flights := {#Answered k tq (v, None)#}\<rparr>" t answer]
    by (simp add: cached_update_def)
qed

theorem cached_store_staleness_witness:
  "\<exists>(s :: cache_sys) tq tu. cached_lookup (sys_now s) ''k'' (sys_cache s) = Some 7
     \<and> answer_limit ((\<lambda>t k. (7, None)) tq ''k'') = Some 7 \<and> tq \<le> tu \<and> tu \<le> sys_now s \<and> sys_now s < tu + minute"
proof -
  let ?ans = "\<lambda>t k. (7, None) :: int \<times> go_error option"
  let ?s = "(cold_cache 5)\<lparr>sys_cache := [''k'' \<mapsto> \<lparr>entry_limit = 7, expiresAt = 5 + minute\<rparr>]\<rparr>"
  have "cache_reach minute ?ans (cold_cache 5) ?s"
    using fill_cache(1) [where k = "''k''" and answer = ?ans and now = 5 and v = 7 and t = minute]
      fill_cache(2) [where k = "''k''" and answer = ?ans and now = 5 and v = 7 and t = minute
        and s = "cold_cache 5" and tq = 5]
    by (auto intro: cache_reach.step simp: cold_cache_def)
  moreover have "cached_lookup (sys_now ?s) ''k'' (sys_cache ?s) = Some 7"
    by (simp add: cached_lookup_def cold_cache_def)
  ultimately show ?thesis
    using cached_store_staleness [of minute ?ans 5 ?s "''k''" 7] by blast
qed

text \<open>
  \<open>Invalidate\<close> does not reach a request in flight: if the store answered \<open>v\<close> to a
  request before the entry was invalidated, that request may write \<open>v\<close> back afterwards, and
  the cache then serves it although the store has long answered something else.
\<close>

theorem cached_store_invalidate_race:
  assumes "k \<noteq> []" "answer t0 k = (v, None)" "t0 \<le> t1" "0 < t"
  shows "\<exists>s s'. cache_reach t answer (cold_cache t0) s \<and> sys_now s = t1
    \<and> cache_reach t answer (s\<lparr>sys_cache := (sys_cache s)(k := None)\<rparr>) s' \<and> sys_now s' = t1
    \<and> cached_lookup t1 k (sys_cache s') = Some v"
proof -
  let ?s = "(cold_cache t0)\<lparr>flights := {#Answered k t0 (v, None)#}, sys_now := t1\<rparr>"
  let ?s' = "(cold_cache t1)\<lparr>sys_cache := [k \<mapsto> \<lparr>entry_limit = v, expiresAt = t1 + t\<rparr>]\<rparr>"
  have "cache_reach t answer (cold_cache t0) ?s"
    using cache_reach.step [OF fill_cache(1) [where answer = answer, OF assms(1,2), of t]
        cache_step.advance [where now = t1]] assms(3)
    by (simp add: cold_cache_def)
  moreover have "cache_step t answer (?s\<lparr>sys_cache := (sys_cache ?s)(k := None)\<rparr>) ?s'"
    using fill_cache(2) [where answer = answer and t = t and s = "cold_cache t1" and tq = t0, OF assms(1,2)]
    by (simp add: cold_cache_def)
  then have "cache_reach t answer (?s\<lparr>sys_cache := (sys_cache ?s)(k := None)\<rparr>) ?s'"
    by (blast intro: cache_reach.intros)
  moreover have "cached_lookup t1 k (sys_cache ?s') = Some v"
    using assms(4) by (simp add: cached_lookup_def)
  ultimately show ?thesis
    by (intro exI [of _ ?s] exI [of _ ?s']) (simp add: cold_cache_def)
qed

theorem cached_store_invalidate_race_witness:
  "\<exists>s s'. cache_reach minute (\<lambda>t k. (if t < 5 then 10 else 20, None)) (cold_cache 0) s \<and> sys_now s = 5
    \<and> cache_reach minute (\<lambda>t k. (if t < 5 then 10 else 20, None)) (s\<lparr>sys_cache := (sys_cache s)(''k'' := None)\<rparr>) s'
    \<and> sys_now s' = 5 \<and> cached_lookup 5 ''k'' (sys_cache s') = Some 10"
  using cached_store_invalidate_race [of "''k''" "\<lambda>t k. (if t < 5 then 10 else 20, None)" 0 10 5 minute]
  by simp

text \<open>
  C20. Within the lifetime of an entry the store is not asked again: after a call that the
  store answered with a limit or with "not found", a second call for the key with a reading
  before \<open>clk 1 + ttl\<close> leaves everything as it is and returns the limit, or 0 and no error
  for the unknown client; after any other error nothing was cached and the store is asked.
\<close>

theorem cached_store_repeat:
  assumes "k \<noteq> []" "cached_lookup (clk 0) k (cs_cache cs) = None"
    and "get (\<lambda>i. clk (i + 2)) k (cs_store cs) = (st, v, err)"
    and "CachedStore_GetClientLimit get clk k cs = (cs', v', err')"
    and "clk' 0 < clk 1 + cs_ttl cs"
  shows "err' = err \<and> (err = None \<longrightarrow> v' = v) \<and> (err \<noteq> None \<longrightarrow> v' = 0)
    \<and> CachedStore_GetClientLimit get clk' k cs' =
        (case answer_limit (v, err) of
           Some w \<Rightarrow> (cs', w, None)
         | None \<Rightarrow> CachedStore_GetClientLimit get clk' k (cs\<lparr>cs_store := st\<rparr>))"
proof (cases "answer_limit (v, err)")
  case None
  then obtain e where "err = Some e" "\<not> errors_is e ErrNotFound" by (cases err) (auto split: if_splits)
  then have "cs' = cs\<lparr>cs_store := st\<rparr>" "v' = 0" "err' = err"
    using assms(1-4) by (auto simp: CachedStore_GetClientLimit_def cached_update_def)
  then show ?thesis using None \<open>err = Some e\<close> by simp
next
  case (Some w)
  then have "v' = w" "err' = err" "cs' = cs\<lparr>cs_store := st,
      cs_cache := (cs_cache cs)(k \<mapsto> \<lparr>entry_limit = w, expiresAt = clk 1 + cs_ttl cs\<rparr>)\<rparr>"
    using assms(1-4)
    by (cases err; auto simp: CachedStore_GetClientLimit_def cached_update_def split: if_splits)+
  then show ?thesis
    using Some assms(1,5) by (cases err)
      (auto simp: CachedStore_GetClientLimit_def cached_lookup_def split: if_splits)
qed

definition one_client :: "nat get_limit" where
  "one_client clk k n = (Suc n, if k = ''vip'' then (50, None) else (0, Some ErrNotFound))"

theorem cached_store_repeat_witness:
  "CachedStore_GetClientLimit one_client (\<lambda>i. 9) ''who''
     (fst (CachedStore_GetClientLimit one_client (\<lambda>i. 1) ''who'' (NewCachedStore 0 0)))
   = (fst (CachedStore_GetClientLimit one_client (\<lambda>i. 1) ''who'' (NewCachedStore 0 0)), 0, None)"
  using cached_store_repeat [of "''who''" "\<lambda>i. 1" "NewCachedStore 0 0" one_client 1 0 "Some ErrNotFound" _ _ _ "\<lambda>i. 9"]
  by (simp add: NewCachedStore_def one_client_def cached_lookup_def CachedStore_GetClientLimit_def cached_update_def)


text \<open>A driver over a table in memory, to evaluate the store on.\<close>

definition table_driver :: "(string \<rightharpoonup> int) sql_driver" where
  "table_driver = \<lparr>sql_open = (\<lambda>c. Inr Map.empty), sql_set = (\<lambda>p db. db), sql_ping = (\<lambda>d db. (db, None)),
     sql_query = (\<lambda>k db. (db, case db k of None \<Rightarrow> Inl ErrNoRows | Some n \<Rightarrow> Inr n)),
     sql_exec = (\<lambda>st db. (case st of UpsertStmt k n \<Rightarrow> db(k \<mapsto> n) | DeleteStmt k \<Rightarrow> db(k := None), None)),
     sql_close = (\<lambda>db. (db, None))\<rparr>"

lemma table_driver_ok: "clients_table table_driver id"
  by (simp add: clients_table_def table_driver_def split: option.split)


end
