(* ===== verification/Middleware.thy ===== *)
theory Middleware
  imports Metrics Limiter_Interface Client_Storage
begin

text \<open>
  \<open>internal/handler/middleware.go\<close>: rate limiting by API key or address, recovery from
  panics, request logging, and the RFC 7807 error bodies. A middleware is a function on
  handlers; the limiter backend, the client store and the collectors it was configured with
  are its arguments.
\<close>

section \<open>Who is asking\<close>

fun index_of :: "char \<Rightarrow> string \<Rightarrow> nat option" where
  "index_of c [] = None"
| "index_of c (x # xs) = (if x = c then Some 0 else map_option Suc (index_of c xs))"

definition last_index_of :: "char \<Rightarrow> string \<Rightarrow> nat option" where
  "last_index_of c s = map_option (\<lambda>j. length s - 1 - j) (index_of c (rev s))"

text \<open>\<open>net.SplitHostPort\<close>; \<open>None\<close> is any of its errors.\<close>

definition SplitHostPort :: "string \<Rightarrow> (string \<times> string) option" where
  "SplitHostPort s =
     (case last_index_of CHR '':'' s of
        None \<Rightarrow> None
      | Some i \<Rightarrow>
          let tail_ok = (\<lambda>j k. CHR ''['' \<notin> set (drop j s) \<and> CHR '']'' \<notin> set (drop k s)) in
          if hd s = CHR ''['' then
            (case index_of CHR '']'' s of
               None \<Rightarrow> None
             | Some e \<Rightarrow>
                 if e + 1 = i \<and> tail_ok 1 (e + 1)
                 then Some (take (e - 1) (drop 1 s), drop (i + 1) s) else None)
          else if CHR '':'' \<notin> set (take i s) \<and> tail_ok 0 0
               then Some (take i s, drop (i + 1) s) else None)"

definition APIKeyHeader :: string where
  "APIKeyHeader = ''X-API-Key''"

definition resolveClientID :: "http_request \<Rightarrow> string" where
  "resolveClientID r =
     (let apiKey = header_get (req_header r) APIKeyHeader in
      if apiKey \<noteq> [] then apiKey
      else case SplitHostPort (remoteAddr r) of Some (h, p) \<Rightarrow> h | None \<Rightarrow> remoteAddr r)"

definition maskAPIKey :: "string \<Rightarrow> string" where
  "maskAPIKey apiKey =
     (if apiKey = [] then []
      else if length apiKey \<le> 8 then ''****''
      else take 4 apiKey @ ''****'' @ drop (length apiKey - 4) apiKey)"

section \<open>Error bodies\<close>

record problem_details =
  pd_Type :: string
  pd_Title :: string
  pd_Status :: int
  pd_Detail :: string
  pd_Instance :: string

definition encode_problem :: "problem_details \<Rightarrow> string" where
  "encode_problem pd = json_object
     [json_member ''type'' (json_string (pd_Type pd)), json_member ''title'' (json_string (pd_Title pd)),
      json_member ''status'' (Itoa (pd_Status pd)), json_member ''detail'' (json_string (pd_Detail pd)),
      json_member ''instance'' (json_string (pd_Instance pd))]"

definition writeProblemDetails :: "int \<Rightarrow> problem_details \<Rightarrow> waction list" where
  "writeProblemDetails status pd =
     [SetHeader ''Content-Type'' ''application/problem+json'']
     @ (if status = 429 then [SetHeader ''Retry-After'' ''1''] else [])
     @ [WriteHeader status, WriteBody (encode_problem pd)]"

section \<open>Rate limiting\<close>

record ('l, 's, 'm) rate_limit_config =
  DefaultLimit :: int
  Storage :: "'s get_limit option"
  Limiter :: "'l limiter_ops"
  rlMetrics :: "'m prom_ops option"

definition resolveClientLimit :: "('l, 's, 'm) rate_limit_config \<Rightarrow> clock \<Rightarrow> string
    \<Rightarrow> ('l, 's, 'u, 'm) gateway \<Rightarrow> ('l, 's, 'u, 'm) gateway \<times> int" where
  "resolveClientLimit cfg clk apiKey g =
     (case Storage cfg of
        None \<Rightarrow> (g, DefaultLimit cfg)
      | Some get \<Rightarrow>
          if apiKey = [] then (g, DefaultLimit cfg)
          else case get clk apiKey (gw_storage g) of
            (st, n, err) \<Rightarrow>
              let g' = g\<lparr>gw_storage := st\<rparr> in
              (case err of
                 Some e \<Rightarrow>
                   if \<not> errors_is e ErrNotFound
                   then (log_add (LimitFetchFailed (maskAPIKey apiKey) e) g', DefaultLimit cfg)
                   else if 0 < n then (g', n) else (g', DefaultLimit cfg)
               | None \<Rightarrow> if 0 < n then (g', n) else (g', DefaultLimit cfg)))"

definition syncLimitIfNeeded :: "'l limiter_ops \<Rightarrow> clock \<Rightarrow> string \<Rightarrow> int \<Rightarrow> int
    \<Rightarrow> ('l, 's, 'u, 'm) gateway \<Rightarrow> ('l, 's, 'u, 'm) gateway \<times> unit outcome" where
  "syncLimitIfNeeded ops clk clientID limit defaultLimit g =
     (if limit = defaultLimit then (g, Ret ())
      else if gw_synced g clientID \<noteq> Some limit then
        (case op_SetLimit ops clk clientID limit (f64_of_int limit) (gw_limiter g) of
           (l, Panic e) \<Rightarrow> (g\<lparr>gw_limiter := l\<rparr>, Panic e)
         | (l, Ret (Some err)) \<Rightarrow> (g\<lparr>gw_limiter := l\<rparr>, Ret ())
         | (l, Ret None) \<Rightarrow>
             (g\<lparr>gw_limiter := l, gw_synced := (gw_synced g)(clientID \<mapsto> limit)\<rparr>, Ret ()))
      else (g, Ret ()))"

definition too_many_requests :: "http_request \<Rightarrow> problem_details" where
  "too_many_requests r = \<lparr>pd_Type = ''https://tools.ietf.org/html/rfc6585#section-4'',
     pd_Title = ''Too Many Requests'', pd_Status = 429,
     pd_Detail = ''Rate limit quota exceeded. Try again in 1 second.'', pd_Instance = req_path r\<rparr>"

definition limit_headers :: "int \<Rightarrow> int \<Rightarrow> waction list" where
  "limit_headers clientLimit tokens =
     [SetHeader ''X-RateLimit-Limit'' (Itoa clientLimit), SetHeader ''X-RateLimit-Remaining'' (Itoa tokens),
      SetHeader ''X-RateLimit-Reset'' ''1'']"

text \<open>
  The readings: the store makes those from 0, \<open>SetLimit\<close> from 8, \<open>Allow\<close> from 16,
  \<open>Tokens\<close> from 24, the inner handler from 32.
\<close>

definition RateLimitMiddleware :: "('l, 's, 'm) rate_limit_config
    \<Rightarrow> ('l, 's, 'u, 'm) gateway handler \<Rightarrow> ('l, 's, 'u, 'm) gateway handler" where
  "RateLimitMiddleware cfg inner clk r g =
     (let clientID = resolveClientID r;
          (g1, clientLimit) = resolveClientLimit cfg clk (header_get (req_header r) APIKeyHeader) g
      in case syncLimitIfNeeded (Limiter cfg) (from_reading 8 clk) clientID clientLimit (DefaultLimit cfg) g1 of
        (g2, Panic e) \<Rightarrow> (g2, [], Panic e)
      | (g2, Ret u) \<Rightarrow>
          (case op_Allow (Limiter cfg) (from_reading 16 clk) clientID (gw_limiter g2) of
             (l, Panic e) \<Rightarrow> (g2\<lparr>gw_limiter := l\<rparr>, [], Panic e)
           | (l, Ret (allowed, Some err)) \<Rightarrow>
               inner (from_reading 32 clk) r
                 (log_add (LimiterFailure (maskAPIKey clientID) err) (g2\<lparr>gw_limiter := l\<rparr>))
           | (l, Ret (allowed, None)) \<Rightarrow>
               (case op_Tokens (Limiter cfg) (from_reading 24 clk) clientID l of
                  (l', Panic e) \<Rightarrow> (g2\<lparr>gw_limiter := l'\<rparr>, [], Panic e)
                | (l', Ret (tokens, tokens_err)) \<Rightarrow>
                    let g3 = g2\<lparr>gw_limiter := l'\<rparr>; hs = limit_headers clientLimit tokens in
                    if \<not> allowed then
                      (case rlMetrics cfg of
                         None \<Rightarrow> (g3, hs @ writeProblemDetails 429 (too_many_requests r), Ret ())
                       | Some p \<Rightarrow>
                           (case RateLimitedTotal_Inc p [req_method r, SanitizePath (req_path r)] (gw_metrics g3) of
                              Panic e \<Rightarrow> (g3, hs, Panic e)
                            | Ret m \<Rightarrow> (g3\<lparr>gw_metrics := m\<rparr>,
                                hs @ writeProblemDetails 429 (too_many_requests r), Ret ())))
                    else let (g4, acts, res) = inner (from_reading 32 clk) r g3 in (g4, hs @ acts, res))))"

section \<open>Recovery and logging\<close>

definition internal_error :: "http_request \<Rightarrow> problem_details" where
  "internal_error r = \<lparr>pd_Type = ''https://tools.ietf.org/html/rfc7231#section-6.6.1'',
     pd_Title = ''Internal Server Error'', pd_Status = 500,
     pd_Detail = ''An unhandled internal server error occurred.'', pd_Instance = req_path r\<rparr>"

definition RecoveryMiddleware ::
    "('l, 's, 'u, 'm) gateway handler \<Rightarrow> ('l, 's, 'u, 'm) gateway handler" where
  "RecoveryMiddleware inner clk r g =
     (case inner clk r g of
        (g', acts, Panic e) \<Rightarrow>
          (log_add (PanicRecovered e (req_path r) (req_method r)) g',
           acts @ writeProblemDetails 500 (internal_error r), Ret ())
      | (g', acts, Ret u) \<Rightarrow> (g', acts, Ret u))"

fun statusWriter_act :: "bool \<Rightarrow> waction \<Rightarrow> int \<Rightarrow> int \<times> waction list" where
  "statusWriter_act flusher (WriteHeader s) status = (s, [WriteHeader s])"
| "statusWriter_act flusher (WriteBody b) status = (if status = 0 then 200 else status, [WriteBody b])"
| "statusWriter_act flusher FlushW status = (status, if flusher then [FlushW] else [])"
| "statusWriter_act flusher (SetHeader k v) status = (status, [SetHeader k v])"
| "statusWriter_act flusher (CopyHeaders h) status = (status, [CopyHeaders h])"

fun statusWriter_run :: "bool \<Rightarrow> waction list \<Rightarrow> int \<Rightarrow> int \<times> waction list" where
  "statusWriter_run flusher [] status = (status, [])"
| "statusWriter_run flusher (a # acts) status =
     (let (s, out) = statusWriter_act flusher a status;
          (s', out') = statusWriter_run flusher acts s
      in (s', out @ out'))"

definition statusWriter_Hijack :: "(go_error + 'c) option \<Rightarrow> go_error + 'c" where
  "statusWriter_Hijack h = (case h of Some res \<Rightarrow> res | None \<Rightarrow> Inl ErrNotSupported)"

definition hex_encode :: "string \<Rightarrow> string" where
  "hex_encode bs = concat (map (\<lambda>c. [hex_digit (byte_of c div 16), hex_digit (byte_of c mod 16)]) bs)"

text \<open>\<open>rand\<close> is what \<open>rand.Read\<close> returns for sixteen bytes.\<close>

definition generateRequestID :: "go_error + string \<Rightarrow> time \<Rightarrow> string" where
  "generateRequestID rand now = (case rand of Inl err \<Rightarrow> Itoa now | Inr bs \<Rightarrow> hex_encode bs)"

definition LoggingMiddleware :: "(clock \<Rightarrow> go_error + string)
    \<Rightarrow> ('l, 's, 'u, 'm) gateway handler \<Rightarrow> ('l, 's, 'u, 'm) gateway handler" where
  "LoggingMiddleware rand inner clk r g =
     (let given = header_get (req_header r) ''X-Request-ID'';
          requestID = (if given = [] then generateRequestID (rand clk) (clk 1) else given);
          hs = (if given = [] then [SetHeader ''X-Request-ID'' requestID] else []);
          (g', acts, res) = inner (from_reading 3 clk) r g;
          (status, out) = statusWriter_run True acts 200
      in case res of
           Panic e \<Rightarrow> (g', hs @ out, Panic e)
         | Ret u \<Rightarrow>
             (log_add (RequestCompleted (req_method r) (req_path r) status
                (time_sub (clk 2) (clk 0) sdiv 1000000) (remoteAddr r) requestID
                (maskAPIKey (header_get (req_header r) APIKeyHeader))
                (header_get (req_header r) ''User-Agent'')) g', hs @ out, Ret ()))"


section \<open>Lemmas\<close>

lemma f64_of_int_ok:
  assumes "int64 n"
  shows "f64_rep (f64_of_int n)" "f64_of_int n \<noteq> NaN" "f64_of_int n \<noteq> PInf"
proof -
  have "f64_of_int n = Fin (rnd (of_int n))" using assms by (intro f64_of_int_int64) (auto simp: int64_def)
  then show "f64_rep (f64_of_int n)" "f64_of_int n \<noteq> NaN" "f64_of_int n \<noteq> PInf"
    using f64_of_rat_rep [of "of_int n"] by (simp_all add: f64_of_int_def)
qed

lemma log_add_frame [frame_simps]:
  "gw_limiter (log_add e g) = gw_limiter g" "gw_storage (log_add e g) = gw_storage g"
  "gw_synced (log_add e g) = gw_synced g" "gw_upstream (log_add e g) = gw_upstream g"
  "gw_metrics (log_add e g) = gw_metrics g"
  by (simp_all add: log_add_def)

lemma resolveClientLimit_frame [frame_simps]:
  assumes "resolveClientLimit cfg clk k g = (g', n)"
  shows "gw_limiter g' = gw_limiter g" "gw_synced g' = gw_synced g" "gw_upstream g' = gw_upstream g"
    "gw_metrics g' = gw_metrics g"
  using assms
  by (auto simp: resolveClientLimit_def Let_def log_add_def split: option.splits if_splits prod.splits)

lemma syncLimitIfNeeded_frame:
  assumes "syncLimitIfNeeded ops clk c n dflt g = (g', res)"
  shows "gw_storage g' = gw_storage g" "gw_upstream g' = gw_upstream g" "gw_metrics g' = gw_metrics g"
    "gw_log g' = gw_log g"
  using assms
  by (auto simp: syncLimitIfNeeded_def split: option.splits if_splits prod.splits outcome.splits)

text \<open>A handler that leaves the limiter alone.\<close>

definition keeps_limiter :: "('l, 's, 'u, 'm) gateway handler \<Rightarrow> bool" where
  "keeps_limiter inner \<longleftrightarrow> (\<forall>clk r g. gw_limiter (fst (inner clk r g)) = gw_limiter g)"

context limiter
begin

lemma sync_other:
  assumes "inv (gw_limiter g)" "int64 n" "syncLimitIfNeeded ops clk c n dflt g = (g', res)"
  shows "inv (gw_limiter g')" "indep c d \<Longrightarrow> view (gw_limiter g') d = view (gw_limiter g) d"
proof -
  note f = f64_of_int_ok [OF assms(2)]
  have "gw_limiter g' = gw_limiter g
      \<or> gw_limiter g' = fst (op_SetLimit ops clk c n (f64_of_int n) (gw_limiter g))"
    using assms(3) by (auto simp: syncLimitIfNeeded_def split: option.splits if_splits prod.splits outcome.splits)
  then show "inv (gw_limiter g')" "indep c d \<Longrightarrow> view (gw_limiter g') d = view (gw_limiter g) d"
    using assms(1,2) set_limit_inv [OF assms(1,2) f] set_limit_other [OF assms(1) _ assms(2) f] by auto
qed

lemma allow_tokens_other:
  assumes "inv s" "op_Allow ops clk c s = (s1, r1)" "op_Tokens ops clk' c s1 = (s2, r2)"
  shows "inv s1" "inv s2" "indep c d \<Longrightarrow> view s1 d = view s d" "indep c d \<Longrightarrow> view s2 d = view s d"
proof -
  show i: "inv s1" using allow_inv [OF assms(1), of clk c] assms(2) by simp
  show "inv s2" using tokens_inv [OF i, of clk' c] assms(3) by simp
  show v: "view s1 d = view s d" if "indep c d"
    using allow_other [OF assms(1) that, of clk] assms(2) by simp
  show "view s2 d = view s d" if "indep c d"
    using tokens_other [OF i that, of clk'] assms(3) v [OF that] by simp
qed

lemma rate_limit_other:
  assumes cfg: "Limiter cfg = ops" "keeps_limiter inner" and inv: "inv (gw_limiter g)"
    and n: "int64 (snd (resolveClientLimit cfg clk (header_get (req_header r) APIKeyHeader) g))"
  shows "inv (gw_limiter (fst (RateLimitMiddleware cfg inner clk r g)))
    \<and> (indep (resolveClientID r) d \<longrightarrow>
        view (gw_limiter (fst (RateLimitMiddleware cfg inner clk r g))) d = view (gw_limiter g) d)"
proof -
  let ?c = "resolveClientID r"
  obtain g1 n where lim: "resolveClientLimit cfg clk (header_get (req_header r) APIKeyHeader) g = (g1, n)" by force
  obtain g2 res where sy: "syncLimitIfNeeded ops (from_reading 8 clk) ?c n (DefaultLimit cfg) g1 = (g2, res)" by force
  obtain l r1 where al: "op_Allow ops (from_reading 16 clk) ?c (gw_limiter g2) = (l, r1)" by force
  obtain l' r2 where tk: "op_Tokens ops (from_reading 24 clk) ?c l = (l', r2)" by force
  have "inv (gw_limiter g1)" using inv lim by (simp add: frame_simps)
  note s = sync_other [OF this n [unfolded lim snd_conv] sy]
  note a = allow_tokens_other [OF s(1) al tk]
  have keep: "gw_limiter (fst (inner clk r g)) = gw_limiter g" for clk r g
    using cfg(2) by (simp add: keeps_limiter_def)
  have "gw_limiter (fst (RateLimitMiddleware cfg inner clk r g)) \<in> {gw_limiter g2, l, l'}"
    by (cases res; cases r1; cases r2; cases "rlMetrics cfg")
      (auto simp: RateLimitMiddleware_def Let_def cfg(1) lim sy al tk keep frame_simps case_prod_beta
        split: option.split outcome.split)
  then show ?thesis using s a lim by (auto simp: frame_simps)
qed

end

section \<open>Properties\<close>

lemma writeProblemDetails_wire:
  assumes "header_only hs" "\<not> (100 \<le> c \<and> c \<le> 199)" "c \<noteq> 204" "c \<noteq> 304"
  shows "wire_status (wire_of (hs @ writeProblemDetails c pd)) = Some c"
    "wire_body (wire_of (hs @ writeProblemDetails c pd)) = encode_problem pd"
    "header_get (wire_sent (wire_of (hs @ writeProblemDetails c pd))) ''Content-Type'' = ''application/problem+json''"
    "c = 429 \<Longrightarrow> wire_sent (wire_of (hs @ writeProblemDetails c pd)) =
       set_headers (hs @ [SetHeader ''Content-Type'' ''application/problem+json'', SetHeader ''Retry-After'' ''1'']) Map.empty"
proof -
  define pre where "pre = hs @ [SetHeader ''Content-Type'' ''application/problem+json'']
    @ (if c = 429 then [SetHeader ''Retry-After'' ''1''] else [])"
  have pre: "header_only pre" using assms(1) by (auto simp: pre_def header_only_def)
  have acts: "hs @ writeProblemDetails c pd = pre @ WriteHeader c # [WriteBody (encode_problem pd)]"
    by (simp add: writeProblemDetails_def pre_def)
  show "wire_status (wire_of (hs @ writeProblemDetails c pd)) = Some c"
    unfolding acts by (rule wire_headers_status [OF pre assms(2)])
  have sent: "wire_sent (wire_of (hs @ writeProblemDetails c pd)) = set_headers pre Map.empty"
    unfolding acts by (rule wire_headers_status [OF pre assms(2)])
  have ap: "set_headers (as @ bs) h = set_headers bs (set_headers as h)" for as bs h
    by (induction as h rule: set_headers.induct) auto
  show "header_get (wire_sent (wire_of (hs @ writeProblemDetails c pd))) ''Content-Type'' = ''application/problem+json''"
    unfolding sent by (simp add: pre_def ap header_get_set_other canonical_key_def token_byte_def is_upper_def
        is_lower_def is_digit_def ascii_upper_def ascii_lower_def)
  show "c = 429 \<Longrightarrow> wire_sent (wire_of (hs @ writeProblemDetails c pd)) =
       set_headers (hs @ [SetHeader ''Content-Type'' ''application/problem+json'', SetHeader ''Retry-After'' ''1'']) Map.empty"
    unfolding sent by (simp add: pre_def)
  have "101 \<noteq> c" using assms(2) by auto
  then show "wire_body (wire_of (hs @ writeProblemDetails c pd)) = encode_problem pd"
    using assms unfolding acts
    by (simp add: wire_of_def fold_header_only [OF pre] fresh_wire_def wire_commit_def body_allowed_def Let_def)
qed

lemma body_of_problem: "body_of (writeProblemDetails c pd) = encode_problem pd"
  by (simp add: writeProblemDetails_def)

lemma limit_headers_only: "header_only (limit_headers n k)"
  by (simp add: limit_headers_def header_only_def)

text \<open>
  C22. A refused request ends here: when the limiter says no, the request is answered with
  status 429, the rate-limit headers, \<open>Retry-After: 1\<close> and a problem document, whatever the
  inner handler is; the upstream side and the store see nothing after the limit was looked up.
\<close>

theorem rate_limit_denied:
  assumes "resolveClientLimit cfg clk (header_get (req_header r) APIKeyHeader) g = (g1, n)"
    and "syncLimitIfNeeded (Limiter cfg) (from_reading 8 clk) (resolveClientID r) n (DefaultLimit cfg) g1 = (g2, Ret ())"
    and "op_Allow (Limiter cfg) (from_reading 16 clk) (resolveClientID r) (gw_limiter g2) = (l, Ret (False, None))"
    and "op_Tokens (Limiter cfg) (from_reading 24 clk) (resolveClientID r) l = (l', Ret (k, err))"
    and "rlMetrics cfg = Some p" "prom_laws p requests active" "valid_utf8 (req_method r)"
  shows "\<exists>m acts. RateLimitMiddleware cfg inner clk r g = (g2\<lparr>gw_limiter := l', gw_metrics := m\<rparr>, acts, Ret ())
    \<and> requests m = requests (gw_metrics g) \<and> gw_upstream g2 = gw_upstream g \<and> gw_storage g2 = gw_storage g1
    \<and> wire_status (wire_of acts) = Some 429 \<and> wire_body (wire_of acts) = encode_problem (too_many_requests r)
    \<and> wire_sent (wire_of acts) = set_headers (limit_headers n k
        @ [SetHeader ''Content-Type'' ''application/problem+json'', SetHeader ''Retry-After'' ''1'']) Map.empty"
proof -
  obtain m where m: "RateLimitedTotal_Inc p [req_method r, SanitizePath (req_path r)] (gw_metrics g2) = Ret m"
    "requests m = requests (gw_metrics g2)"
    using prom_lawsD(5) [OF assms(6,7) SanitizePath_valid] by metis
  have "RateLimitMiddleware cfg inner clk r g = (g2\<lparr>gw_limiter := l', gw_metrics := m\<rparr>,
      limit_headers n k @ writeProblemDetails 429 (too_many_requests r), Ret ())"
    using assms(1-5) m(1) by (simp add: RateLimitMiddleware_def Let_def)
  moreover have "requests m = requests (gw_metrics g) \<and> gw_upstream g2 = gw_upstream g \<and> gw_storage g2 = gw_storage g1"
    using m(2) resolveClientLimit_frame [OF assms(1)] syncLimitIfNeeded_frame [OF assms(2)] by simp
  moreover have "wire_status (wire_of (limit_headers n k @ writeProblemDetails 429 (too_many_requests r))) = Some 429"
    "wire_body (wire_of (limit_headers n k @ writeProblemDetails 429 (too_many_requests r))) = encode_problem (too_many_requests r)"
    "wire_sent (wire_of (limit_headers n k @ writeProblemDetails 429 (too_many_requests r))) = set_headers (limit_headers n k
        @ [SetHeader ''Content-Type'' ''application/problem+json'', SetHeader ''Retry-After'' ''1'']) Map.empty"
    by (rule writeProblemDetails_wire; simp add: limit_headers_only)+
  ultimately show ?thesis by blast
qed

text \<open>A limiter that gives the same verdict to everyone, to evaluate the middleware on.\<close>

definition verdict_ops :: "bool \<times> go_error option \<Rightarrow> unit limiter_ops" where
  "verdict_ops v = \<lparr>op_Allow = (\<lambda>clk c s. (s, Ret v)), op_Tokens = (\<lambda>clk c s. (s, Ret (0, None))),
     op_Reset = (\<lambda>clk c s. (s, Ret None)), op_SetLimit = (\<lambda>clk c b r s. (s, Ret None)),
     op_Close = (\<lambda>s. (s, Ret None))\<rparr>"

definition verdict_config :: "bool \<times> go_error option \<Rightarrow> (unit, unit, table_metrics) rate_limit_config" where
  "verdict_config v = \<lparr>DefaultLimit = 10, Storage = None, Limiter = verdict_ops v, rlMetrics = Some table_prom\<rparr>"

lemma get_request_method: "valid_utf8 (req_method (get_request path))"
  by (rule valid_utf8_ascii) (simp add: get_request_def is_ascii_def)

theorem rate_limit_denied_witness:
  "wire_status (wire_of (fst (snd (RateLimitMiddleware (verdict_config (False, None)) teapot (\<lambda>i. 0)
     (get_request ''/x'') empty_gateway)))) = Some 429"
proof -
  have key: "header_get (req_header (get_request ''/x'')) APIKeyHeader = []"
    by (simp add: get_request_def header_get_def)
  show ?thesis
    using rate_limit_denied [of "verdict_config (False, None)" "\<lambda>i. 0" "get_request ''/x''" empty_gateway
        empty_gateway 10 empty_gateway "()" "()" 0 None table_prom tm_requests tm_active teapot]
    by (auto simp: table_prom_laws get_request_method resolveClientLimit_def verdict_config_def
        syncLimitIfNeeded_def verdict_ops_def)
qed



text \<open>
  A client's limit is pushed to the backend once: after a synchronisation that the
  backend accepted, synchronising the same limit again does nothing (pushing it on every
  request would refill the bucket). But a limit equal to the default is never pushed, even
  when the backend still has another one for the client.
\<close>

theorem sync_limit_once:
  assumes "syncLimitIfNeeded ops clk c n dflt g = (g', Ret ())"
    and "snd (op_SetLimit ops clk c n (f64_of_int n) (gw_limiter g)) = Ret None"
  shows "syncLimitIfNeeded ops clk' c n dflt g' = (g', Ret ())
    \<and> (n \<noteq> dflt \<longrightarrow> gw_synced g' c = Some n) \<and> (n = dflt \<longrightarrow> g' = g)
    \<and> syncLimitIfNeeded ops clk' c dflt dflt g' = (g', Ret ())"
  using assms by (cases "op_SetLimit ops clk c n (f64_of_int n) (gw_limiter g)")
    (auto simp: syncLimitIfNeeded_def split: if_splits)

theorem sync_limit_once_witness:
  "syncLimitIfNeeded (verdict_ops (True, None)) (\<lambda>i. 1) ''k'' 10 10
      (fst (syncLimitIfNeeded (verdict_ops (True, None)) (\<lambda>i. 0) ''k'' 50 10 empty_gateway))
    = (fst (syncLimitIfNeeded (verdict_ops (True, None)) (\<lambda>i. 0) ''k'' 50 10 empty_gateway), Ret ())"
proof -
  have "syncLimitIfNeeded (verdict_ops (True, None)) (\<lambda>i. 0) ''k'' 50 10 empty_gateway
      = (empty_gateway\<lparr>gw_synced := [''k'' \<mapsto> 50]\<rparr>, Ret ())"
    by (simp add: syncLimitIfNeeded_def verdict_ops_def empty_gateway_def)
  moreover from sync_limit_once [OF this, of "\<lambda>i. 1"] have
    "syncLimitIfNeeded (verdict_ops (True, None)) (\<lambda>i. 1) ''k'' 10 10 (empty_gateway\<lparr>gw_synced := [''k'' \<mapsto> 50]\<rparr>)
      = (empty_gateway\<lparr>gw_synced := [''k'' \<mapsto> 50]\<rparr>, Ret ())"
    by (simp add: verdict_ops_def)
  ultimately show ?thesis by simp
qed


definition broken_upstream :: "('l, 's, 'u, 'm) gateway handler" where
  "broken_upstream clk r g = (g, [WriteHeader 200, WriteBody ''par''], Panic ''net/http: abort Handler'')"



lemma index_of_append: "c \<notin> set a \<Longrightarrow> index_of c (a @ c # b) = Some (length a)"
  by (induction a) auto

lemma last_index_of_append: "c \<notin> set b \<Longrightarrow> last_index_of c (a @ c # b) = Some (length a)"
  using index_of_append [of c "rev b" "rev a"] by (simp add: last_index_of_def)

definition plain_host :: "string \<Rightarrow> bool" where
  "plain_host s \<longleftrightarrow> CHR '':'' \<notin> set s \<and> CHR ''['' \<notin> set s \<and> CHR '']'' \<notin> set s"

lemma SplitHostPort_plain:
  assumes "plain_host h" "plain_host p"
  shows "SplitHostPort (h @ CHR '':'' # p) = Some (h, p)"
proof -
  have "last_index_of CHR '':'' (h @ CHR '':'' # p) = Some (length h)"
    using assms by (simp add: last_index_of_append plain_host_def)
  moreover have "hd (h @ CHR '':'' # p) \<noteq> CHR ''[''"
    using assms(1) by (cases h) (auto simp: plain_host_def)
  ultimately show ?thesis using assms by (simp add: SplitHostPort_def plain_host_def)
qed

lemma SplitHostPort_bracketed:
  assumes "CHR ''['' \<notin> set h" "CHR '']'' \<notin> set h" "plain_host p"
  shows "SplitHostPort (CHR ''['' # h @ CHR '']'' # CHR '':'' # p) = Some (h, p)"
proof -
  have "last_index_of CHR '':'' ((CHR ''['' # h @ [CHR '']'']) @ CHR '':'' # p) = Some (length (CHR ''['' # h @ [CHR '']'']))"
    using assms(3) by (intro last_index_of_append) (simp add: plain_host_def)
  moreover have "index_of CHR '']'' ((CHR ''['' # h) @ CHR '']'' # (CHR '':'' # p)) = Some (length (CHR ''['' # h))"
    using assms(2) by (intro index_of_append) simp
  ultimately show ?thesis using assms by (simp add: SplitHostPort_def plain_host_def)
qed

text \<open>
  C25. Who is limited: a request with an API key is limited under that key; without one,
  under the host of its remote address, IPv4 or bracketed IPv6, so that all connections of a
  host share a bucket whatever their ports.
\<close>

theorem client_identity:
  assumes "plain_host p"
    and "remoteAddr r = (if v6 then CHR ''['' # h @ CHR '']'' # CHR '':'' # p else h @ CHR '':'' # p)"
    and "if v6 then CHR ''['' \<notin> set h \<and> CHR '']'' \<notin> set h else plain_host h"
  shows "resolveClientID r =
    (if header_get (req_header r) APIKeyHeader \<noteq> [] then header_get (req_header r) APIKeyHeader else h)"
  using assms by (cases v6)
    (simp_all add: resolveClientID_def Let_def SplitHostPort_plain SplitHostPort_bracketed)

theorem client_identity_witness: "resolveClientID (get_request ''/x'') = ''1.2.3.4''"
  using client_identity [of "''5''" "get_request ''/x''" False "''1.2.3.4''"]
  by (simp add: plain_host_def get_request_def header_get_def)

lemma statusWriter_transparent:
  "s \<noteq> 0 \<Longrightarrow> WriteHeader 0 \<notin> set acts \<Longrightarrow> statusWriter_run True acts s = (last_status s acts, acts)"
proof (induction acts arbitrary: s)
  case (Cons a acts)
  then show ?case by (cases a) auto
qed simp

text \<open>
  C36. Logging does not change the response: the inner handler's actions reach the writer in
  order, after an \<open>X-Request-ID\<close> header when the request had none; the one entry logged has
  the last status written, and the API key only in masked form.
\<close>

theorem logging_transparent:
  assumes "inner (from_reading 3 clk) r g = (g', acts, Ret ())" "WriteHeader 0 \<notin> set acts"
  shows "\<exists>id. LoggingMiddleware rand inner clk r g =
      (log_add (RequestCompleted (req_method r) (req_path r) (last_status 200 acts)
          (time_sub (clk 2) (clk 0) sdiv 1000000) (remoteAddr r) id
          (maskAPIKey (header_get (req_header r) APIKeyHeader)) (header_get (req_header r) ''User-Agent'')) g',
       (if header_get (req_header r) ''X-Request-ID'' = [] then [SetHeader ''X-Request-ID'' id] else []) @ acts, Ret ())
    \<and> (header_get (req_header r) ''X-Request-ID'' \<noteq> [] \<longrightarrow> id = header_get (req_header r) ''X-Request-ID'')"
  using assms statusWriter_transparent [of 200 acts]
  by (simp add: LoggingMiddleware_def Let_def)

theorem logging_transparent_witness:
  "\<exists>id. LoggingMiddleware (\<lambda>clk. Inr ''0123456789abcdef'') teapot (\<lambda>i. 0) (get_request ''/x'') empty_gateway =
      (log_add (RequestCompleted ''GET'' ''/x'' 418 0 ''1.2.3.4:5'' id [] []) empty_gateway,
       [SetHeader ''X-Request-ID'' id, WriteHeader 418, WriteBody ''short''], Ret ())"
  using logging_transparent [of teapot "\<lambda>i. 0" "get_request ''/x''" empty_gateway empty_gateway
      "[WriteHeader 418, WriteBody ''short'']" "\<lambda>clk. Inr ''0123456789abcdef''"]
  by (simp add: teapot_def get_request_def header_get_def maskAPIKey_def time_sub_def)

end
