(* ===== verification/Proxy.thy ===== *)
theory Proxy
  imports Resilient_Transport Middleware
begin

text \<open>
  The reverse proxy of \<open>internal/handler/proxy.go\<close>: \<open>httputil.ReverseProxy\<close> with the
  handler's \<open>Rewrite\<close>, \<open>ModifyResponse\<close> and \<open>ErrorHandler\<close>, over the resilient transport and
  its circuit breaker. The upstream, that is the base transport and the ends of waits and
  bodies, is a parameter.
\<close>

section \<open>What ReverseProxy does to headers and paths\<close>

definition is_space :: "char \<Rightarrow> bool" where
  "is_space c \<longleftrightarrow> c = CHR '' '' \<or> c = CHR 0x09 \<or> c = CHR 0x0A \<or> c = CHR 0x0D"

definition trim :: "string \<Rightarrow> string" where
  "trim s = rev (dropWhile is_space (rev (dropWhile is_space s)))"

definition header_tokens :: "header \<Rightarrow> string \<Rightarrow> string list" where
  "header_tokens h k = (case h k of None \<Rightarrow> [] | Some vs \<Rightarrow>
     filter (\<lambda>t. t \<noteq> []) (concat (map (\<lambda>v. map trim (SplitSeq v CHR '','')) vs)))"

definition has_token :: "header \<Rightarrow> string \<Rightarrow> string \<Rightarrow> bool" where
  "has_token h k tok \<longleftrightarrow> map ascii_lower tok \<in> set (map (map ascii_lower) (header_tokens h k))"

definition hopHeaders :: "string list" where
  "hopHeaders = [''Connection'', ''Proxy-Connection'', ''Keep-Alive'', ''Proxy-Authenticate'',
     ''Proxy-Authorization'', ''Te'', ''Trailer'', ''Transfer-Encoding'', ''Upgrade'']"

definition del_headers :: "string list \<Rightarrow> header \<Rightarrow> header" where
  "del_headers ks h = fold (\<lambda>k h. header_del h k) ks h"

definition removeHopByHop :: "header \<Rightarrow> header" where
  "removeHopByHop h = del_headers hopHeaders (del_headers (header_tokens h ''Connection'') h)"

definition upgradeType :: "header \<Rightarrow> string" where
  "upgradeType h = (if has_token h ''Connection'' ''Upgrade'' then header_get h ''Upgrade'' else [])"

definition singleJoiningSlash :: "string \<Rightarrow> string \<Rightarrow> string" where
  "singleJoiningSlash a b =
     (let aslash = (a \<noteq> [] \<and> last a = CHR ''/''); bslash = (b \<noteq> [] \<and> hd b = CHR ''/'')
      in if aslash \<and> bslash then a @ tl b
         else if \<not> aslash \<and> \<not> bslash then a @ ''/'' @ b else a @ b)"

section \<open>The handler's functions\<close>

record url =
  url_Scheme :: string
  url_Host :: string
  url_Path :: string
  url_RawQuery :: string

record out_request = http_request +
  out_scheme :: string
  out_url_host :: string

text \<open>
  The outgoing request starts as a copy of the incoming one. \<open>SetURL\<close> joins paths and queries
  (for paths without an escaped form of their own) and clears the host, \<open>SetXForwarded\<close>
  records the client; the gateway speaks plain HTTP to its clients.
\<close>

definition SetURL :: "url \<Rightarrow> out_request \<Rightarrow> out_request" where
  "SetURL t out = out\<lparr>out_scheme := url_Scheme t, out_url_host := url_Host t,
     req_path := singleJoiningSlash (url_Path t) (req_path out),
     req_query := (if url_RawQuery t = [] \<or> req_query out = [] then url_RawQuery t @ req_query out
        else url_RawQuery t @ ''&'' @ req_query out),
     req_host := []\<rparr>"

fun join_comma :: "string list \<Rightarrow> string" where
  "join_comma [] = []"
| "join_comma [v] = v"
| "join_comma (v # vs) = v @ '', '' @ join_comma vs"

definition SetXForwarded :: "http_request \<Rightarrow> header \<Rightarrow> header" where
  "SetXForwarded inreq h =
     (let h1 = (case SplitHostPort (remoteAddr inreq) of
            None \<Rightarrow> header_del h ''X-Forwarded-For''
          | Some (clientIP, port) \<Rightarrow>
              header_set h ''X-Forwarded-For''
                (case h ''X-Forwarded-For'' of
                   Some (p # ps) \<Rightarrow> join_comma (p # ps) @ '', '' @ clientIP
                 | _ \<Rightarrow> clientIP))
      in header_set (header_set h1 ''X-Forwarded-Host'' (req_host inreq)) ''X-Forwarded-Proto'' ''http'')"

definition Rewrite :: "url \<Rightarrow> http_request \<Rightarrow> out_request \<Rightarrow> out_request" where
  "Rewrite target inreq out =
     (let o1 = SetURL target out;
          o2 = o1\<lparr>req_header := SetXForwarded inreq (req_header o1)\<rparr>;
          o3 = o2\<lparr>req_host := url_Host target\<rparr>
      in o3\<lparr>req_header := header_set (req_header o3) ''X-Gateway'' ''go-limiter''\<rparr>)"

definition ModifyResponse :: "header \<Rightarrow> header \<Rightarrow> header" where
  "ModifyResponse out_header h =
     (let h1 = header_set h ''X-Gateway'' ''go-limiter'';
          xfHost = header_get out_header ''X-Forwarded-Host''
      in if xfHost \<noteq> [] then header_set h1 ''X-Forwarded-Host'' xfHost else h1)"

definition upstream_problem :: "int \<Rightarrow> string \<Rightarrow> string \<Rightarrow> string \<Rightarrow> http_request \<Rightarrow> problem_details" where
  "upstream_problem status sec title detail r =
     \<lparr>pd_Type = ''https://tools.ietf.org/html/rfc7231#section-'' @ sec, pd_Title = title, pd_Status = status,
      pd_Detail = detail, pd_Instance = req_path r\<rparr>"

text \<open>\<open>ctx_err\<close> is what \<open>r.Context().Err()\<close> returns.\<close>

definition ErrorHandler :: "go_error option \<Rightarrow> http_request \<Rightarrow> go_error \<Rightarrow> waction list" where
  "ErrorHandler ctx_err r err =
     (if Contains (err_msg err) ''circuit breaker is open'' then
        writeProblemDetails 503 (upstream_problem 503 ''6.6.4'' ''Service Unavailable''
          ''Upstream circuit breaker is open. Please try again later.'' r)
      else if errors_is err DeadlineExceeded
              \<or> (case ctx_err of None \<Rightarrow> False | Some e \<Rightarrow> errors_is e DeadlineExceeded) then
        writeProblemDetails 504 (upstream_problem 504 ''6.6.5'' ''Gateway Timeout''
          ''Upstream connection timed out.'' r)
      else
        writeProblemDetails 502 (upstream_problem 502 ''6.6.3'' ''Bad Gateway''
          ''The upstream service failed to respond or returned an invalid response.'' r))"

section \<open>The proxy\<close>

text \<open>
  What happens on the upstream side of one request: the transport's environment, what other
  requests do to the breaker meanwhile, the context's error when the error handler looks, how
  the response body ends, and the error of a refused protocol switch: the writer the
  middlewares hand to the proxy is not an \<open>http.Hijacker\<close>, so a switch is always refused.
\<close>

record proxy_up =
  up_env :: rt_env
  up_meanwhile :: "circuit_breaker \<Rightarrow> circuit_breaker"
  up_ctx_err :: "go_error option"
  up_body_end :: "go_error option"
  up_switch_err :: go_error

record 't proxy_config =
  Target :: url
  Timeout :: duration
  Transport :: "'t option"

text \<open>The settings of the transport that is built when none is given.\<close>

record transport_settings =
  DialTimeout :: duration
  KeepAlive :: duration
  MaxIdleConns :: int
  MaxIdleConnsPerHost :: int
  MaxConnsPerHost :: int
  IdleConnTimeout :: duration
  DisableCompression :: bool

definition default_transport :: transport_settings where
  "default_transport = \<lparr>DialTimeout = 5 * second, KeepAlive = 30 * second, MaxIdleConns = 20000,
     MaxIdleConnsPerHost = 20000, MaxConnsPerHost = 20000, IdleConnTimeout = 90 * second, DisableCompression = True\<rparr>"

text \<open>What \<open>NewProxyHandler\<close> sets up: timeout, base transport and breaker.\<close>

definition NewProxyHandler :: "(transport_settings \<Rightarrow> 't) \<Rightarrow> 't proxy_config \<Rightarrow> duration \<times> 't \<times> circuit_breaker" where
  "NewProxyHandler http_Transport cfg =
     ((if Timeout cfg = 0 then 30 * second else Timeout cfg),
      (case Transport cfg of None \<Rightarrow> http_Transport default_transport | Some t \<Rightarrow> t),
      NewCircuitBreaker 5 (5 * second))"

fun query_ok :: "string \<Rightarrow> bool" where
  "query_ok [] = True"
| "query_ok (c # s) =
     (if c = CHR '';'' then False
      else if c = CHR ''%'' then
        (case s of a # b # t \<Rightarrow> isHexDigit (of_char a) \<and> isHexDigit (of_char b) \<and> query_ok t | _ \<Rightarrow> False)
      else query_ok s)"

definition is_print :: "string \<Rightarrow> bool" where
  "is_print s = list_all (\<lambda>c. 32 \<le> (byte_of c :: nat) \<and> (byte_of c :: nat) \<le> 126) s"

definition forwarding_headers :: "string list" where
  "forwarding_headers = [''Forwarded'', ''X-Forwarded-For'', ''X-Forwarded-Host'', ''X-Forwarded-Proto'']"

definition add_user_agent :: "out_request \<Rightarrow> out_request" where
  "add_user_agent out =
     (if req_header out ''User-Agent'' = None
      then out\<lparr>req_header := header_set (req_header out) ''User-Agent'' []\<rparr> else out)"

text \<open>
  \<open>reencode\<close> is \<open>url.ParseQuery\<close> followed by \<open>Encode\<close>, for queries that do not parse. The
  result is the outgoing request, or, on the left, the copy that goes with the error of an upgrade header
  that cannot be printed.
\<close>

definition outgoing :: "(string \<Rightarrow> string) \<Rightarrow> url \<Rightarrow> http_request \<Rightarrow> out_request + out_request" where
  "outgoing reencode target r =
     (let out = http_request.extend r \<lparr>out_scheme = [], out_url_host = []\<rparr>;
          up = upgradeType (req_header r)
      in if \<not> is_print up then Inl out
         else
           let h1 = removeHopByHop (req_header r);
               h2 = (if has_token (req_header r) ''Te'' ''trailers'' then header_set h1 ''Te'' ''trailers'' else h1);
               h3 = (if up \<noteq> [] then header_set (header_set h2 ''Connection'' ''Upgrade'') ''Upgrade'' up else h2);
               q = (if query_ok (req_query r) then req_query r else reencode (req_query r));
               o1 = Rewrite target r (out\<lparr>req_header := del_headers forwarding_headers h3, req_query := q\<rparr>)
           in Inr (add_user_agent o1))"

definition nil_panic :: string where
  "nil_panic = ''invalid memory address or nil pointer dereference''"

text \<open>
  \<open>proxy.ServeHTTP\<close> under the timeout: \<open>up\<close> gets the outgoing request. The breaker is asked
  at reading 0 and told at reading 1.
\<close>

definition Proxy_ServeHTTP :: "(string \<Rightarrow> string) \<Rightarrow> (duration \<Rightarrow> clock \<Rightarrow> out_request \<Rightarrow> proxy_up)
    \<Rightarrow> duration \<Rightarrow> url \<Rightarrow> ('l, 's, circuit_breaker, 'm) gateway handler" where
  "Proxy_ServeHTTP reencode up timeout target clk r g =
     (case outgoing reencode target r of
        Inl out \<Rightarrow>
          (g, ErrorHandler (up_ctx_err (up timeout clk out)) (http_request.truncate out)
                (ErrorString ''client tried to switch to invalid protocol''), Ret ())
      | Inr out \<Rightarrow>
          let u = up timeout clk out;
              (res, cb) = RoundTrip (up_env u) (clk 0) (up_meanwhile u) (clk 1) (http_request.truncate out) (gw_upstream g);
              g' = g\<lparr>gw_upstream := cb\<rparr>
          in case ret res of
               NilDeref \<Rightarrow> (g', [], Panic nil_panic)
             | Return resp (Some err) \<Rightarrow> (g', ErrorHandler (up_ctx_err u) (http_request.truncate out) err, Ret ())
             | Return None None \<Rightarrow> (g', [], Panic nil_panic)
             | Return (Some resp) None \<Rightarrow>
                 if resp_status resp = 101
                 then (g', ErrorHandler (up_ctx_err u) (http_request.truncate out) (up_switch_err u), Ret ())
                 else
                   let h = ModifyResponse (req_header out) (removeHopByHop (resp_header resp));
                       acts = [CopyHeaders h, WriteHeader (resp_status resp)]
                         @ (case resp_body resp of None \<Rightarrow> [] | Some [] \<Rightarrow> [] | Some b \<Rightarrow> [WriteBody b])
                   in (g', acts, case up_body_end u of None \<Rightarrow> Ret () | Some e \<Rightarrow> Panic ''net/http: abort Handler''))"

section \<open>Lemmas\<close>

lemma canonical_keys [simp]:
  "canonical_key ''X-Forwarded-For'' = ''X-Forwarded-For''"
  "canonical_key ''X-Forwarded-Host'' = ''X-Forwarded-Host''"
  "canonical_key ''X-Forwarded-Proto'' = ''X-Forwarded-Proto''"
  "canonical_key ''Forwarded'' = ''Forwarded''" "canonical_key ''X-Gateway'' = ''X-Gateway''"
  "canonical_key ''User-Agent'' = ''User-Agent''"
  by (simp_all add: canonical_key_def token_byte_def is_upper_def is_lower_def is_digit_def ascii_upper_def
      ascii_lower_def)

lemma del_headers_apply: "del_headers ks h k = (if k \<in> canonical_key ` set ks then None else h k)"
  unfolding del_headers_def by (induction ks arbitrary: h) (auto simp: header_del_def)

lemma header_set_apply: "header_set h k v k' = (if k' = canonical_key k then Some [v] else h k')"
  by (simp add: header_set_def)

lemma header_del_apply: "header_del h k k' = (if k' = canonical_key k then None else h k')"
  by (simp add: header_del_def)

lemma add_user_agent_keeps: "k \<noteq> ''User-Agent'' \<Longrightarrow> req_header (add_user_agent out) k = req_header out k"
  by (simp add: add_user_agent_def header_set_apply)

lemma Rewrite_header:
  "req_header (Rewrite target r out) = header_set (SetXForwarded r (req_header out)) ''X-Gateway'' ''go-limiter''"
  by (simp add: Rewrite_def SetURL_def Let_def)

lemma outgoing_InrD:
  assumes "outgoing reencode target r = Inr out"
  shows "req_header out ''X-Gateway'' = Some [''go-limiter'']"
    "req_header out ''X-Forwarded-Host'' = Some [req_host r]" "req_header out ''X-Forwarded-Proto'' = Some [''http'']"
    "req_header out ''Forwarded'' = None"
    "req_header out ''X-Forwarded-For'' = map_option (\<lambda>(ip, port). [ip]) (SplitHostPort (remoteAddr r))"
    "req_host out = url_Host target" "req_method out = req_method r" "req_body out = req_body r" "getBody out = getBody r"
    "req_path out = singleJoiningSlash (url_Path target) (req_path r)" "remoteAddr out = remoteAddr r"
proof -
  obtain h q where "out = add_user_agent (Rewrite target r
      ((http_request.extend r \<lparr>out_scheme = [], out_url_host = []\<rparr>)\<lparr>req_header := del_headers forwarding_headers h,
        req_query := q\<rparr>))"
    using assms unfolding outgoing_def Let_def by (auto split: if_splits)
  then have out: "out = add_user_agent (Rewrite target r
      (http_request.extend (r\<lparr>req_header := del_headers forwarding_headers h, req_query := q\<rparr>)
        \<lparr>out_scheme = [], out_url_host = []\<rparr>))"
    by (simp add: http_request.defs)
  show "req_header out ''X-Gateway'' = Some [''go-limiter'']"
    "req_header out ''X-Forwarded-Host'' = Some [req_host r]" "req_header out ''X-Forwarded-Proto'' = Some [''http'']"
    by (simp_all add: out add_user_agent_keeps Rewrite_header SetXForwarded_def Let_def header_set_apply)
  show "req_header out ''Forwarded'' = None"
    by (simp add: out add_user_agent_keeps Rewrite_header SetXForwarded_def Let_def header_set_apply
        header_del_apply http_request.defs del_headers_apply forwarding_headers_def split: option.split list.split)
  show "req_header out ''X-Forwarded-For'' = map_option (\<lambda>(ip, port). [ip]) (SplitHostPort (remoteAddr r))"
    by (simp add: out add_user_agent_keeps Rewrite_header SetXForwarded_def Let_def header_set_apply
        header_del_apply http_request.defs del_headers_apply forwarding_headers_def split: option.split)
  show "req_host out = url_Host target" "req_method out = req_method r" "req_body out = req_body r" "getBody out = getBody r"
    "req_path out = singleJoiningSlash (url_Path target) (req_path r)" "remoteAddr out = remoteAddr r"
    by (simp_all add: out add_user_agent_def Rewrite_def SetURL_def Let_def http_request.defs)
qed

lemma ErrorHandler_wire:
  fixes ctx_err r err
  defines "acts \<equiv> ErrorHandler ctx_err r err"
  shows "wire_status (wire_of acts) = Some
      (if Contains (err_msg err) ''circuit breaker is open'' then 503
       else if errors_is err DeadlineExceeded \<or> (\<exists>e. ctx_err = Some e \<and> errors_is e DeadlineExceeded) then 504
       else 502)"
  using writeProblemDetails_wire(1) [of "[]"]
  by (auto simp: acts_def ErrorHandler_def header_only_def split: option.splits)

text \<open>What \<open>RoundTrip\<close> returns when the breaker refuses.\<close>

lemma RoundTrip_refused:
  assumes "CircuitBreaker_Allow t0 cb = (False, cb')"
  shows "RoundTrip env t0 meanwhile t1 req cb =
    (\<lparr>ret = Return None (Some breaker_open_error), recorded = None, trace = []\<rparr>, cb')"
  using assms by (simp add: RoundTrip_def)

lemma breaker_open_error_msg: "Contains (err_msg breaker_open_error) ''circuit breaker is open''"
  unfolding Contains_iff by (simp add: breaker_open_error_def) (metis append_Nil append_Nil2)

section \<open>Properties\<close>

text \<open>
  C26. A client cannot forge where it comes from: in every request that goes upstream,
  \<open>X-Forwarded-For\<close> is the host of the connection's remote address alone (absent if that
  address has no host and port), \<open>X-Forwarded-Host\<close> is the request's own host,
  \<open>Forwarded\<close> is gone, \<open>X-Gateway\<close> is set, and host, path and method are the target's, the
  joined path and the client's, whatever headers the client sent.
\<close>

theorem proxy_forwarding_headers:
  assumes "outgoing reencode target r = Inr out"
  shows "req_header out ''X-Forwarded-For'' = map_option (\<lambda>(ip, port). [ip]) (SplitHostPort (remoteAddr r))
    \<and> req_header out ''X-Forwarded-Host'' = Some [req_host r] \<and> req_header out ''Forwarded'' = None
    \<and> req_header out ''X-Gateway'' = Some [''go-limiter''] \<and> req_host out = url_Host target
    \<and> req_path out = singleJoiningSlash (url_Path target) (req_path r) \<and> req_method out = req_method r"
  using outgoing_InrD [OF assms] by blast

definition demo_target :: url where
  "demo_target = \<lparr>url_Scheme = ''http'', url_Host = ''up:3000'', url_Path = ''/v1/'', url_RawQuery = []\<rparr>"

definition forged :: http_request where
  "forged = (get_request ''/x'')\<lparr>req_header := [''X-Forwarded-For'' \<mapsto> [''6.6.6.6'']]\<rparr>"

theorem proxy_forwarding_headers_witness:
  "\<exists>out. outgoing id demo_target forged = Inr out
    \<and> req_header out ''X-Forwarded-For'' = Some [''1.2.3.4''] \<and> req_path out = ''/v1/x''"
proof -
  have "isl (outgoing id demo_target forged) = False"
    by (simp add: outgoing_def upgradeType_def has_token_def header_tokens_def forged_def is_print_def Let_def)
  then obtain out where out: "outgoing id demo_target forged = Inr out" by (cases "outgoing id demo_target forged") auto
  have "SplitHostPort (remoteAddr forged) = Some (''1.2.3.4'', ''5'')"
    using SplitHostPort_plain [of "''1.2.3.4''" "''5''"] by (simp add: forged_def get_request_def plain_host_def)
  then show ?thesis
    using proxy_forwarding_headers [OF out] out
    by (simp add: demo_target_def forged_def get_request_def singleJoiningSlash_def)
qed

text \<open>
  C27. Failures upstream become the right answers. While the breaker refuses, the client gets
  503, nothing is sent upstream and no attempt is made; otherwise an error of the transport
  gives 503 if its message says the breaker is open, 504 if it or the request's context ran
  into its deadline, and 502 in every other case.
\<close>

theorem proxy_maps_errors:
  assumes "outgoing reencode target r = Inr out"
    and "RoundTrip (up_env (up timeout clk out)) (clk 0) (up_meanwhile (up timeout clk out)) (clk 1)
      (http_request.truncate out) (gw_upstream g) = (res, cb)" "ret res = Return resp (Some err)"
  shows "\<exists>acts. Proxy_ServeHTTP reencode up timeout target clk r g = (g\<lparr>gw_upstream := cb\<rparr>, acts, Ret ())
    \<and> wire_status (wire_of acts) = Some
        (if Contains (err_msg err) ''circuit breaker is open'' then 503
         else if errors_is err DeadlineExceeded
            \<or> (\<exists>e. up_ctx_err (up timeout clk out) = Some e \<and> errors_is e DeadlineExceeded) then 504 else 502)
    \<and> (\<not> fst (CircuitBreaker_Allow (clk 0) (gw_upstream g)) \<longrightarrow>
         trace res = [] \<and> wire_status (wire_of acts) = Some 503)"
proof -
  let ?acts = "ErrorHandler (up_ctx_err (up timeout clk out)) (http_request.truncate out) err"
  have "Proxy_ServeHTTP reencode up timeout target clk r g = (g\<lparr>gw_upstream := cb\<rparr>, ?acts, Ret ())"
    using assms by (simp add: Proxy_ServeHTTP_def Let_def split: option.split)
  moreover have "trace res = [] \<and> err = breaker_open_error"
    if n: "\<not> fst (CircuitBreaker_Allow (clk 0) (gw_upstream g))"
  proof -
    obtain cb' where "CircuitBreaker_Allow (clk 0) (gw_upstream g) = (False, cb')"
      using n by (cases "CircuitBreaker_Allow (clk 0) (gw_upstream g)") auto
    then show ?thesis using assms(2,3) by (auto simp: RoundTrip_refused)
  qed
  ultimately show ?thesis
    by (intro exI [of _ ?acts]) (auto simp: ErrorHandler_wire breaker_open_error_msg)
qed

definition quiet_up :: "duration \<Rightarrow> clock \<Rightarrow> out_request \<Rightarrow> proxy_up" where
  "quiet_up timeout clk out =
     \<lparr>up_env = \<lparr>base = (\<lambda>i req. (Some \<lparr>resp_status = 101, resp_header = Map.empty, resp_body = None\<rparr>, None)),
                wait_end = (\<lambda>i. None)\<rparr>,
      up_meanwhile = id, up_ctx_err = None, up_body_end = None,
      up_switch_err = ErrorString ''no hijacker''\<rparr>"

definition breaker_gateway :: "circuit_breaker \<Rightarrow> (unit, unit, circuit_breaker, table_metrics) gateway" where
  "breaker_gateway cb = \<lparr>gw_limiter = (), gw_storage = (), gw_synced = Map.empty, gw_upstream = cb,
     gw_metrics = no_metrics, gw_log = []\<rparr>"

lemma forged_outgoing: "\<exists>out. outgoing reencode demo_target forged = Inr out"
  by (simp add: outgoing_def upgradeType_def has_token_def header_tokens_def forged_def is_print_def Let_def)

theorem proxy_maps_errors_witness:
  "\<exists>acts. Proxy_ServeHTTP id quiet_up 1 demo_target (\<lambda>i. 1) forged (breaker_gateway tripped_breaker)
      = (breaker_gateway tripped_breaker, acts, Ret ()) \<and> wire_status (wire_of acts) = Some 503"
proof -
  obtain out where out: "outgoing id demo_target forged = Inr out" using forged_outgoing by blast
  have no: "CircuitBreaker_Allow 1 tripped_breaker = (False, tripped_breaker)"
    by (simp add: CircuitBreaker_Allow_def tripped_breaker_def NewCircuitBreaker_def time_sub_def Let_def)
  have rt: "RoundTrip (up_env (quiet_up 1 (\<lambda>i. 1) out)) 1 (up_meanwhile (quiet_up 1 (\<lambda>i. 1) out)) 1
      (http_request.truncate out) (gw_upstream (breaker_gateway tripped_breaker))
    = (\<lparr>ret = Return None (Some breaker_open_error), recorded = None, trace = []\<rparr>, tripped_breaker)"
    by (simp add: breaker_gateway_def RoundTrip_refused [OF no])
  have "gw_upstream (breaker_gateway tripped_breaker) = tripped_breaker"
    "(breaker_gateway tripped_breaker)\<lparr>gw_upstream := tripped_breaker\<rparr> = breaker_gateway tripped_breaker"
    by (simp_all add: breaker_gateway_def)
  then show ?thesis
    using proxy_maps_errors [where clk = "\<lambda>i. 1" and up = quiet_up and timeout = 1
      and g = "breaker_gateway tripped_breaker", OF out rt] by (auto simp: no)
qed

text \<open>
  C28. A response passes through: for a final status that is not informational, the client
  gets the upstream's status and, where the status has one, its body, with \<open>X-Gateway\<close> set
  and the request's host in \<open>X-Forwarded-Host\<close>; if the upstream breaks off in the body the
  handler panics after the status is out.
\<close>

theorem proxy_passes_response:
  assumes "outgoing reencode target r = Inr out"
    and "RoundTrip (up_env (up timeout clk out)) (clk 0) (up_meanwhile (up timeout clk out)) (clk 1)
      (http_request.truncate out) (gw_upstream g) = (res, cb)" "ret res = Return (Some resp) None"
    and "\<not> (100 \<le> resp_status resp \<and> resp_status resp \<le> 199)" "body_allowed (Some (resp_status resp))"
  shows "\<exists>acts. Proxy_ServeHTTP reencode up timeout target clk r g = (g\<lparr>gw_upstream := cb\<rparr>, acts,
      (case up_body_end (up timeout clk out) of None \<Rightarrow> Ret () | Some e \<Rightarrow> Panic ''net/http: abort Handler''))
    \<and> wire_status (wire_of acts) = Some (resp_status resp)
    \<and> wire_body (wire_of acts) = (case resp_body resp of None \<Rightarrow> [] | Some b \<Rightarrow> b)
    \<and> wire_sent (wire_of acts) ''X-Gateway'' = Some [''go-limiter'']
    \<and> (req_host r \<noteq> [] \<longrightarrow> wire_sent (wire_of acts) ''X-Forwarded-Host'' = Some [req_host r])"
proof -
  let ?h = "ModifyResponse (req_header out) (removeHopByHop (resp_header resp))"
  define bs where "bs = (case resp_body resp of None \<Rightarrow> [] | Some [] \<Rightarrow> [] | Some b \<Rightarrow> [WriteBody b])"
  let ?acts = "[CopyHeaders ?h] @ WriteHeader (resp_status resp) # bs"
  have "resp_status resp \<noteq> 101" using assms(4) by auto
  then have "Proxy_ServeHTTP reencode up timeout target clk r g = (g\<lparr>gw_upstream := cb\<rparr>, ?acts,
      (case up_body_end (up timeout clk out) of None \<Rightarrow> Ret () | Some e \<Rightarrow> Panic ''net/http: abort Handler''))"
    using assms by (simp add: Proxy_ServeHTTP_def Let_def bs_def)
  moreover have ho: "header_only [CopyHeaders ?h]" by (simp add: header_only_def)
  note w = wire_headers_status [OF ho assms(4), of bs]
  moreover have "wire_body (wire_of ?acts) = (case resp_body resp of None \<Rightarrow> [] | Some b \<Rightarrow> b)"
    using assms(4,5)
    by (auto simp: bs_def wire_of_def fresh_wire_def wire_commit_def Let_def split: option.split list.split)
  moreover have "header_get (req_header out) ''X-Forwarded-Host'' = req_host r"
    using outgoing_InrD(2) [OF assms(1)] by (simp add: header_get_def)
  ultimately show ?thesis
    by (intro exI [of _ ?acts]) (auto simp: header_copy_def ModifyResponse_def Let_def header_set_apply)
qed

definition teapot_up :: "int \<Rightarrow> duration \<Rightarrow> clock \<Rightarrow> out_request \<Rightarrow> proxy_up" where
  "teapot_up c timeout clk out = (quiet_up timeout clk out)
     \<lparr>up_env := \<lparr>base = (\<lambda>i req. (Some \<lparr>resp_status = c, resp_header = Map.empty, resp_body = Some ''tea''\<rparr>, None)),
                 wait_end = (\<lambda>i. None)\<rparr>\<rparr>"

definition teapot_result :: "int \<Rightarrow> rt_result \<times> circuit_breaker" where
  "teapot_result c =
    (\<lparr>ret = Return (Some \<lparr>resp_status = c, resp_header = Map.empty, resp_body = Some ''tea''\<rparr>) None,
      recorded = Some True, trace = [Sent 0 None, Got 0 (Some \<lparr>resp_status = c, resp_header = Map.empty,
        resp_body = Some ''tea''\<rparr>) None]\<rparr>,
     CircuitBreaker_RecordResult 1 True (NewCircuitBreaker 5 5000000000))"

lemma teapot_RoundTrip:
  assumes "c < 500" "req_method req = ''GET''" "req_body req = None"
  shows "RoundTrip (up_env (teapot_up c timeout clk out)) t0 id 1 req (NewCircuitBreaker 5 5000000000) = teapot_result c"
proof -
  have "rt_attempts (up_env (teapot_up c timeout clk out)) 3 (Suc 2) req (None, None) =
      \<lparr>ret = Return (Some \<lparr>resp_status = c, resp_header = Map.empty, resp_body = Some ''tea''\<rparr>) None,
        recorded = Some True, trace = [Sent 0 None, Got 0 (Some \<lparr>resp_status = c, resp_header = Map.empty,
          resp_body = Some ''tea''\<rparr>) None]\<rparr>"
    unfolding rt_attempts.simps(2) using assms by (simp add: teapot_up_def Let_def)
  then show ?thesis
    using assms by (simp add: RoundTrip_def CircuitBreaker_Allow_def NewCircuitBreaker_def rt_call_def
        isIdempotent_def teapot_result_def)
qed

theorem proxy_passes_response_witness:
  "\<exists>g acts. Proxy_ServeHTTP id (teapot_up 418) 1 demo_target (\<lambda>i. 1) forged
      (breaker_gateway (NewCircuitBreaker 5 5000000000)) = (g, acts, Ret ())
    \<and> wire_status (wire_of acts) = Some 418 \<and> wire_body (wire_of acts) = ''tea''"
proof -
  obtain out where out: "outgoing id demo_target forged = Inr out" using forged_outgoing by blast
  have o: "req_method (http_request.truncate out) = ''GET''" "req_body (http_request.truncate out) = None"
    using outgoing_InrD(7,8) [OF out] by (simp_all add: http_request.defs forged_def get_request_def)
  have m: "up_meanwhile (teapot_up 418 1 (\<lambda>i. 1) out) = id" "up_body_end (teapot_up 418 1 (\<lambda>i. 1) out) = None"
    by (simp_all add: teapot_up_def quiet_up_def)
  have rt: "RoundTrip (up_env (teapot_up 418 1 (\<lambda>i. 1) out)) 1 (up_meanwhile (teapot_up 418 1 (\<lambda>i. 1) out)) 1
      (http_request.truncate out) (gw_upstream (breaker_gateway (NewCircuitBreaker 5 5000000000))) = teapot_result 418"
    using teapot_RoundTrip [of 418 "http_request.truncate out" 1 "\<lambda>i. 1" out 1] o
    by (simp add: m breaker_gateway_def)
  show ?thesis
    using proxy_passes_response [where clk = "\<lambda>i. 1" and up = "teapot_up 418" and timeout = 1
      and g = "breaker_gateway (NewCircuitBreaker 5 5000000000)", OF out rt [unfolded teapot_result_def]]
    by (auto simp: m body_allowed_def)
qed

text \<open>
  Protocol switches never succeed through the gateway: an upstream that answers 101 (a
  WebSocket handshake) leads to status 502, because the writer of the middlewares cannot be
  hijacked.
\<close>

theorem proxy_refuses_switch:
  assumes "outgoing reencode target r = Inr out"
    and "RoundTrip (up_env (up timeout clk out)) (clk 0) (up_meanwhile (up timeout clk out)) (clk 1)
      (http_request.truncate out) (gw_upstream g) = (res, cb)" "ret res = Return (Some resp) None"
    and "resp_status resp = 101" "up_ctx_err (up timeout clk out) = None"
    and "up_switch_err (up timeout clk out) = ErrorString m" "\<not> Contains m ''circuit breaker is open''"
  shows "\<exists>acts. Proxy_ServeHTTP reencode up timeout target clk r g = (g\<lparr>gw_upstream := cb\<rparr>, acts, Ret ())
    \<and> wire_status (wire_of acts) = Some 502"
  using assms ErrorHandler_wire [of None "http_request.truncate out" "ErrorString m"]
  by (simp add: Proxy_ServeHTTP_def Let_def)

theorem proxy_refuses_switch_witness:
  "\<exists>g acts. Proxy_ServeHTTP id (teapot_up 101) 1 demo_target (\<lambda>i. 1) forged
      (breaker_gateway (NewCircuitBreaker 5 5000000000)) = (g, acts, Ret ()) \<and> wire_status (wire_of acts) = Some 502"
proof -
  obtain out where out: "outgoing id demo_target forged = Inr out" using forged_outgoing by blast
  have o: "req_method (http_request.truncate out) = ''GET''" "req_body (http_request.truncate out) = None"
    using outgoing_InrD(7,8) [OF out] by (simp_all add: http_request.defs forged_def get_request_def)
  have m: "up_meanwhile (teapot_up 101 1 (\<lambda>i. 1) out) = id" "up_ctx_err (teapot_up 101 1 (\<lambda>i. 1) out) = None"
    "up_switch_err (teapot_up 101 1 (\<lambda>i. 1) out) = ErrorString ''no hijacker''"
    by (simp_all add: teapot_up_def quiet_up_def)
  have rt: "RoundTrip (up_env (teapot_up 101 1 (\<lambda>i. 1) out)) 1 (up_meanwhile (teapot_up 101 1 (\<lambda>i. 1) out)) 1
      (http_request.truncate out) (gw_upstream (breaker_gateway (NewCircuitBreaker 5 5000000000))) = teapot_result 101"
    using teapot_RoundTrip [of 101 "http_request.truncate out" 1 "\<lambda>i. 1" out 1] o
    by (simp add: m breaker_gateway_def)
  have nc: "\<not> Contains ''no hijacker'' ''circuit breaker is open''" by (simp add: HasPrefix_def)
  show ?thesis
    using proxy_refuses_switch [where clk = "\<lambda>i. 1" and up = "teapot_up 101" and timeout = 1
      and g = "breaker_gateway (NewCircuitBreaker 5 5000000000)", OF out rt [unfolded teapot_result_def] _ _ m(2,3) nc]
    by auto
qed

end
