(* ===== verification/Config.thy ===== *)
theory Config
  imports Go_Strings Float64
begin

text \<open>
  \<open>internal/config/config.go\<close>: the configuration read from the environment (a map from names
  to values), its defaults, the database URL and the validation. \<open>time.ParseDuration\<close> is
  modelled with its arithmetic.
\<close>

section \<open>Durations\<close>

text \<open>The units in nanoseconds; the two microsecond signs are UTF-8.\<close>

definition duration_unit :: "string \<Rightarrow> nat option" where
  "duration_unit u =
     (if u = ''ns'' then Some 1
      else if u = ''us'' \<or> u = [CHR 0xC2, CHR 0xB5, CHR ''s''] \<or> u = [CHR 0xCE, CHR 0xBC, CHR ''s''] then Some 1000
      else if u = ''ms'' then Some 1000000
      else if u = ''s'' then Some 1000000000
      else if u = ''m'' then Some 60000000000
      else if u = ''h'' then Some 3600000000000
      else None)"

text \<open>Digits after the point, until the value would overflow, with their scale.\<close>

fun fraction_digits :: "string \<Rightarrow> nat \<Rightarrow> f64 \<Rightarrow> bool \<Rightarrow> nat \<times> f64" where
  "fraction_digits [] x scale overflow = (x, scale)"
| "fraction_digits (c # s) x scale overflow =
     (if overflow then fraction_digits s x scale overflow
      else if (2 ^ 63 - 1) div 10 < x then fraction_digits s x scale True
      else let y = x * 10 + (byte_of c - 48) in
        if 2 ^ 63 < y then fraction_digits s x scale True
        else fraction_digits s y (f64_mul scale (Fin 10)) False)"

definition unit_byte :: "char \<Rightarrow> bool" where
  "unit_byte c \<longleftrightarrow> \<not> (c = CHR ''.'' \<or> is_digit c)"

definition add_fraction :: "nat \<Rightarrow> nat \<Rightarrow> f64 \<Rightarrow> nat \<Rightarrow> nat" where
  "add_fraction v f scale unit =
     (if 0 < f
      then v + nat (f64_to_int (f64_mul (f64_of_int (int f)) (f64_div (f64_of_int (int unit)) scale)))
      else v)"

function duration_parts :: "string \<Rightarrow> nat \<Rightarrow> nat option" where
  "duration_parts s d =
     (if s = [] then Some d
      else if \<not> (hd s = CHR ''.'' \<or> is_digit (hd s)) then None
      else
        let ds = takeWhile is_digit s; s1 = dropWhile is_digit s in
        if 2 ^ 63 < dec_val ds then None
        else
          let point = (s1 \<noteq> [] \<and> hd s1 = CHR ''.'');
              fs = (if point then takeWhile is_digit (tl s1) else []);
              s2 = (if point then dropWhile is_digit (tl s1) else s1);
              (f, scale) = fraction_digits fs 0 (Fin 1) False
          in if ds = [] \<and> fs = [] then None
             else
               let u = takeWhile unit_byte s2; s3 = dropWhile unit_byte s2 in
               if u = [] then None
               else case duration_unit u of
                 None \<Rightarrow> None
               | Some unit \<Rightarrow>
                   if 2 ^ 63 div unit < dec_val ds then None
                   else let v = add_fraction (dec_val ds * unit) f scale unit in
                     if 2 ^ 63 < v \<or> 2 ^ 63 < d + v then None
                     else duration_parts s3 (d + v))"
  by auto
termination
proof (relation "measure (length \<circ> fst)", simp, goal_cases)
  case (1 s d ds s1 point fs s2 x f scale u s3 unit v)
  have "length s3 < length s2"
    using 1 by (metis length_dropWhile_le dropWhile_eq_self_iff le_neq_implies_less length_append
        length_greater_0_conv less_add_same_cancel2 takeWhile_dropWhile_id)
  moreover have "length s2 \<le> length s"
    using 1 length_dropWhile_le [of is_digit s] length_dropWhile_le [of is_digit "tl s1"]
    by (auto simp: )
  ultimately show ?case by simp
qed

declare duration_parts.simps [simp del]

definition ParseDuration :: "string \<Rightarrow> duration option" where
  "ParseDuration s =
     (let neg = (s \<noteq> [] \<and> hd s = CHR ''-'');
          t = (if s \<noteq> [] \<and> (hd s = CHR ''-'' \<or> hd s = CHR ''+'') then tl s else s)
      in if t = ''0'' then Some 0
         else if t = [] then None
         else case duration_parts t 0 of
           None \<Rightarrow> None
         | Some d \<Rightarrow>
             if neg then Some (wrap64 (- wrap64 (int d)))
             else if 2 ^ 63 - 1 < d then None else Some (int d))"

section \<open>The environment\<close>

type_synonym environment = "string \<rightharpoonup> string"

definition getEnv :: "environment \<Rightarrow> string \<Rightarrow> string \<Rightarrow> string" where
  "getEnv env key fallback =
     (case env key of Some value \<Rightarrow> if value \<noteq> [] then value else fallback | None \<Rightarrow> fallback)"

definition getEnvInt :: "environment \<Rightarrow> string \<Rightarrow> int \<Rightarrow> int" where
  "getEnvInt env key fallback =
     (case env key of
        Some value \<Rightarrow> if value \<noteq> [] then (case Atoi value of Some parsed \<Rightarrow> parsed | None \<Rightarrow> fallback) else fallback
      | None \<Rightarrow> fallback)"

definition getEnvBool :: "environment \<Rightarrow> string \<Rightarrow> bool \<Rightarrow> bool" where
  "getEnvBool env key fallback =
     (case env key of
        Some value \<Rightarrow> if value \<noteq> [] then (case ParseBool value of Some parsed \<Rightarrow> parsed | None \<Rightarrow> fallback) else fallback
      | None \<Rightarrow> fallback)"

definition getEnvDuration :: "environment \<Rightarrow> string \<Rightarrow> duration \<Rightarrow> duration" where
  "getEnvDuration env key fallback =
     (case env key of
        Some value \<Rightarrow>
          if value \<noteq> [] then
            (case ParseDuration value of
               Some d \<Rightarrow> d
             | None \<Rightarrow> (case Atoi value of Some seconds \<Rightarrow> wrap64 (seconds * second) | None \<Rightarrow> fallback))
          else fallback
      | None \<Rightarrow> fallback)"

section \<open>The configuration\<close>

record config =
  cfgPort :: int
  UpstreamURL :: string
  RateLimitRPS :: int
  RateLimitBurst :: int
  RateLimitBackend :: string
  RateLimitCleanupInterval :: duration
  LogLevel :: string
  ReadTimeout :: duration
  WriteTimeout :: duration
  MetricsEnabled :: bool
  DatabaseURL :: string
  DBHost :: string
  DBPort :: int
  DBUser :: string
  DBPassword :: string
  DBName :: string
  DBSSLMode :: string
  DBMaxOpenConns :: int
  DBMaxIdleConns :: int
  DBConnMaxLifetime :: duration
  DBConnMaxIdleTime :: duration
  RedisHost :: string
  RedisPort :: int
  RedisPassword :: string
  RedisDB :: int
  RedisPoolSize :: int
  RedisMinIdle :: int
  RedisDialTimeout :: duration
  RedisReadTimeout :: duration
  RedisWriteTimeout :: duration
  RedisKeyPrefix :: string
  DebugRateLimit :: bool

definition read_env :: "environment \<Rightarrow> config" where
  "read_env env = \<lparr>
     cfgPort = getEnvInt env ''PORT'' 8080,
     UpstreamURL = getEnv env ''UPSTREAM_URL'' ''http://localhost:3000'',
     RateLimitRPS = getEnvInt env ''RATE_LIMIT_RPS'' 10,
     RateLimitBurst = getEnvInt env ''RATE_LIMIT_BURST'' 20,
     RateLimitBackend = getEnv env ''RATE_LIMIT_BACKEND'' ''memory'',
     RateLimitCleanupInterval = getEnvDuration env ''RATE_LIMIT_CLEANUP_INTERVAL''
       (getEnvDuration env ''RATE_LIMIT_CLEANUP_INTERVAL_SECONDS'' (300 * second)),
     LogLevel = getEnv env ''LOG_LEVEL'' ''info'',
     ReadTimeout = wrap64 (getEnvInt env ''READ_TIMEOUT_SECONDS'' 15 * second),
     WriteTimeout = wrap64 (getEnvInt env ''WRITE_TIMEOUT_SECONDS'' 15 * second),
     MetricsEnabled = getEnvBool env ''METRICS_ENABLED'' True,
     DatabaseURL = getEnv env ''DATABASE_URL'' [],
     DBHost = getEnv env ''DB_HOST'' ''localhost'',
     DBPort = getEnvInt env ''DB_PORT'' 5432,
     DBUser = getEnv env ''DB_USER'' [],
     DBPassword = getEnv env ''DB_PASSWORD'' [],
     DBName = getEnv env ''DB_NAME'' [],
     DBSSLMode = getEnv env ''DB_SSL_MODE'' ''disable'',
     DBMaxOpenConns = getEnvInt env ''DB_MAX_OPEN_CONNS'' 25,
     DBMaxIdleConns = getEnvInt env ''DB_MAX_IDLE_CONNS'' 5,
     DBConnMaxLifetime = getEnvDuration env ''DB_CONN_MAX_LIFETIME''
       (getEnvDuration env ''DB_CONN_MAX_LIFETIME_SECONDS'' (5 * minute)),
     DBConnMaxIdleTime = getEnvDuration env ''DB_CONN_MAX_IDLE_TIME''
       (getEnvDuration env ''DB_CONN_MAX_IDLE_TIME_SECONDS'' (5 * minute)),
     RedisHost = getEnv env ''REDIS_HOST'' [],
     RedisPort = getEnvInt env ''REDIS_PORT'' 6379,
     RedisPassword = getEnv env ''REDIS_PASSWORD'' [],
     RedisDB = getEnvInt env ''REDIS_DB'' 0,
     RedisPoolSize = getEnvInt env ''REDIS_POOL_SIZE'' 20,
     RedisMinIdle = getEnvInt env ''REDIS_MIN_IDLE'' 5,
     RedisDialTimeout = wrap64 (getEnvInt env ''REDIS_DIAL_TIMEOUT_SECONDS'' 5 * second),
     RedisReadTimeout = wrap64 (getEnvInt env ''REDIS_READ_TIMEOUT_SECONDS'' 3 * second),
     RedisWriteTimeout = wrap64 (getEnvInt env ''REDIS_WRITE_TIMEOUT_SECONDS'' 3 * second),
     RedisKeyPrefix = getEnv env ''REDIS_KEY_PREFIX'' ''ratelimit:'',
     DebugRateLimit = getEnvBool env ''DEBUG_RATE_LIMIT'' False\<rparr>"

definition query_param :: "string \<Rightarrow> config \<Rightarrow> config" where
  "query_param param c =
     (let (k, v, ok) = Cut param CHR ''='' in if ok \<and> k = ''sslmode'' then c\<lparr>DBSSLMode := v\<rparr> else c)"

definition parseDatabaseURL :: "config \<Rightarrow> go_error + config" where
  "parseDatabaseURL c =
     (let urlStr = TrimPrefix (TrimPrefix (DatabaseURL c) ''postgres://'') ''postgresql://'';
          (credentials, hostPortDB, found) = Cut urlStr CHR ''@''
      in if \<not> found then Inl (ErrorString ''missing @ separator in database URL'')
         else
           let (user, password, has_password) = Cut credentials CHR '':'';
               c1 = c\<lparr>DBUser := user, DBPassword := password\<rparr>;
               (hostPort, dbNameAndQuery, hasDB) = Cut hostPortDB CHR ''/'';
               c2 = (if hasDB then
                       let (dbName, query, hasQuery) = Cut dbNameAndQuery CHR ''?'';
                           d = c1\<lparr>DBName := dbName\<rparr>
                       in if hasQuery then fold query_param (SplitSeq query CHR ''&'') d else d
                     else c1);
               (host, portStr, hasPort) = Cut hostPort CHR '':'';
               c3 = c2\<lparr>DBHost := host\<rparr>
           in Inr (if hasPort then (case Atoi portStr of Some port \<Rightarrow> c3\<lparr>DBPort := port\<rparr> | None \<Rightarrow> c3) else c3))"

text \<open>A word between apostrophes.\<close>

definition quoted :: "string \<Rightarrow> string" where
  "quoted s = [CHR 0x27] @ s @ [CHR 0x27]"

definition validateDatabase :: "config \<Rightarrow> go_error option" where
  "validateDatabase c =
     (if DBHost c = [] then Some (ErrorString ''DB_HOST cannot be empty when database is configured'')
      else if DBPort c < 1 \<or> 65535 < DBPort c then
        Some (ErrorString (''DB_PORT must be between 1 and 65535, got '' @ Itoa (DBPort c)))
      else if DBUser c = [] then Some (ErrorString ''DB_USER cannot be empty when database is configured'')
      else if DBName c = [] then Some (ErrorString ''DB_NAME cannot be empty when database is configured'')
      else None)"

definition validate :: "config \<Rightarrow> go_error option" where
  "validate c =
     (if cfgPort c < 1 \<or> 65535 < cfgPort c then
        Some (ErrorString (''PORT must be between 1 and 65535, got '' @ Itoa (cfgPort c)))
      else if \<not> HasPrefix (UpstreamURL c) ''http://'' \<and> \<not> HasPrefix (UpstreamURL c) ''https://'' then
        Some (ErrorString (''UPSTREAM_URL must start with http:// or https://, got '' @ UpstreamURL c))
      else if RateLimitRPS c \<le> 0 then
        Some (ErrorString (''RATE_LIMIT_RPS must be greater than 0, got '' @ Itoa (RateLimitRPS c)))
      else if RateLimitBurst c \<le> 0 then
        Some (ErrorString (''RATE_LIMIT_BURST must be greater than 0, got '' @ Itoa (RateLimitBurst c)))
      else if RateLimitBurst c < RateLimitRPS c then
        Some (ErrorString (''RATE_LIMIT_BURST ('' @ Itoa (RateLimitBurst c)
          @ '') must be greater than or equal to RATE_LIMIT_RPS ('' @ Itoa (RateLimitRPS c) @ '')''))
      else if ToLower (RateLimitBackend c) \<noteq> ''memory'' \<and> ToLower (RateLimitBackend c) \<noteq> ''redis'' then
        Some (ErrorString (''RATE_LIMIT_BACKEND must be '' @ quoted ''memory'' @ '' or '' @ quoted ''redis''
          @ '', got '' @ RateLimitBackend c))
      else if ToLower (RateLimitBackend c) = ''redis'' \<and> RedisHost c = [] then
        Some (ErrorString (''REDIS_HOST cannot be empty when RATE_LIMIT_BACKEND is '' @ quoted ''redis''))
      else if ToLower (RateLimitBackend c) = ''redis'' \<and> (RedisPort c < 1 \<or> 65535 < RedisPort c) then
        Some (ErrorString (''REDIS_PORT must be between 1 and 65535, got '' @ Itoa (RedisPort c)))
      else if ToLower (RateLimitBackend c) = ''redis'' \<and> RedisPoolSize c \<le> 0 then
        Some (ErrorString (''REDIS_POOL_SIZE must be greater than 0, got '' @ Itoa (RedisPoolSize c)))
      else if ToLower (LogLevel c) \<noteq> ''debug'' \<and> ToLower (LogLevel c) \<noteq> ''info''
              \<and> ToLower (LogLevel c) \<noteq> ''warn'' \<and> ToLower (LogLevel c) \<noteq> ''error'' then
        Some (ErrorString (''LOG_LEVEL must be one of [debug, info, warn, error], got '' @ LogLevel c))
      else if DatabaseURL c \<noteq> [] \<or> DBUser c \<noteq> [] \<or> DBName c \<noteq> [] then validateDatabase c
      else None)"

definition Load :: "environment \<Rightarrow> go_error + config" where
  "Load env =
     (let cfg = read_env env in
      case (if DatabaseURL cfg \<noteq> [] then parseDatabaseURL cfg else Inr cfg) of
        Inl err \<Rightarrow> Inl (WrapError ''invalid DATABASE_URL'' err)
      | Inr cfg' \<Rightarrow>
          (case validate cfg' of
             Some err \<Rightarrow> Inl (WrapError ''invalid configuration'' err)
           | None \<Rightarrow> Inr cfg'))"

section \<open>Lemmas\<close>

lemma ToLower_ascii: "is_ascii s \<Longrightarrow> ToLower s = map ascii_lower s"
proof (induction s)
  case (Cons c s)
  then have c: "byte_of c < (128 :: nat)" "is_ascii s" by (auto simp: is_ascii_def)
  have "encode_rune (lower_rune (of_char c)) = [ascii_lower c]"
    using c(1) by (auto simp: encode_rune_def lower_rune_def ascii_lower_def is_upper_def)
  then show ?case using Cons c by (simp add: ToLower_def runes_ascii is_ascii_def)
qed (simp add: ToLower_def)

lemma getEnvInt_int64: "int64 fallback \<Longrightarrow> int64 (getEnvInt env key fallback)"
  by (auto simp: getEnvInt_def Atoi_int64 split: option.split)

lemma query_params_keep:
  "RateLimitRPS (fold query_param ps c) = RateLimitRPS c" "RateLimitBurst (fold query_param ps c) = RateLimitBurst c"
  "DatabaseURL (fold query_param ps c) = DatabaseURL c" "DBName (fold query_param ps c) = DBName c"
  "DBUser (fold query_param ps c) = DBUser c" "DBPassword (fold query_param ps c) = DBPassword c"
  "DBPort (fold query_param ps c) = DBPort c" "cfgPort (fold query_param ps c) = cfgPort c"
  by (induction ps arbitrary: c) (simp_all add: query_param_def Let_def split: prod.split)

lemma parseDatabaseURL_keeps:
  assumes "parseDatabaseURL c = Inr c'"
  shows "RateLimitRPS c' = RateLimitRPS c" "RateLimitBurst c' = RateLimitBurst c" "DatabaseURL c' = DatabaseURL c"
    "cfgPort c' = cfgPort c"
proof -
  obtain a b f where ab: "Cut (TrimPrefix (TrimPrefix (DatabaseURL c) ''postgres://'') ''postgresql://'') CHR ''@'' = (a, b, f)"
    by (metis prod_cases3)
  obtain u w f1 where uw: "Cut a CHR '':'' = (u, w, f1)" by (metis prod_cases3)
  obtain hp dq f2 where hd: "Cut b CHR ''/'' = (hp, dq, f2)" by (metis prod_cases3)
  obtain n q f3 where nq: "Cut dq CHR ''?'' = (n, q, f3)" by (metis prod_cases3)
  obtain h p f4 where hp: "Cut hp CHR '':'' = (h, p, f4)" by (metis prod_cases3)
  show "RateLimitRPS c' = RateLimitRPS c" "RateLimitBurst c' = RateLimitBurst c" "DatabaseURL c' = DatabaseURL c"
    "cfgPort c' = cfgPort c"
    using assms
    by (auto simp: parseDatabaseURL_def Let_def ab uw hd nq hp query_params_keep split: if_splits option.splits)
qed

lemma read_env_fields:
  "RateLimitRPS (read_env env) = getEnvInt env ''RATE_LIMIT_RPS'' 10"
  "RateLimitBurst (read_env env) = getEnvInt env ''RATE_LIMIT_BURST'' 20"
  "cfgPort (read_env env) = getEnvInt env ''PORT'' 8080"
  by (simp_all add: read_env_def)

lemma LoadD:
  assumes "Load env = Inr c"
  shows "validate c = None" "int64 (RateLimitRPS c)" "int64 (RateLimitBurst c)"
    "(DatabaseURL c = [] \<longrightarrow> c = read_env env)" "cfgPort c = getEnvInt env ''PORT'' 8080"
proof -
  let ?c0 = "read_env env"
  have c: "(if DatabaseURL ?c0 \<noteq> [] then parseDatabaseURL ?c0 else Inr ?c0) = Inr c \<and> validate c = None"
    using assms unfolding Load_def Let_def by (auto split: sum.splits option.splits)
  then show "validate c = None" by (rule conjunct2)
  have keeps: "RateLimitRPS c = RateLimitRPS ?c0 \<and> RateLimitBurst c = RateLimitBurst ?c0 \<and> cfgPort c = cfgPort ?c0
    \<and> DatabaseURL c = DatabaseURL ?c0 \<and> (DatabaseURL ?c0 = [] \<longrightarrow> c = ?c0)"
    using c parseDatabaseURL_keeps [of ?c0 c] by (cases "DatabaseURL ?c0 = []") simp_all
  have "int64 10" "int64 20" by (simp_all add: int64_def)
  then show "int64 (RateLimitRPS c)" "int64 (RateLimitBurst c)" "cfgPort c = getEnvInt env ''PORT'' 8080"
    using keeps getEnvInt_int64 by (simp_all add: read_env_fields)
  show "DatabaseURL c = [] \<longrightarrow> c = ?c0" using keeps by simp
qed

lemma duration_parts_digits:
  assumes "list_all is_digit s" "s \<noteq> []"
  shows "duration_parts s d = None"
proof -
  have tw: "takeWhile is_digit s = s" "dropWhile is_digit s = []" "is_digit (hd s)"
    using assms by (simp_all add: list_all_iff)
  show ?thesis using assms(2) by (subst duration_parts.simps) (simp add: tw Let_def case_prod_beta)
qed

lemma nat_dec_zero_iff: "nat_dec n = ''0'' \<longleftrightarrow> n = 0"
proof
  assume "nat_dec n = ''0''"
  then have "dec_val (nat_dec n) = dec_val ''0''" by simp
  also have "dec_val ''0'' = 0" by (simp add: dec_val_def)
  finally show "n = 0" by simp
qed (simp add: nat_dec.simps digit_def char_of_eqI)

lemma ParseDuration_Itoa: "ParseDuration (Itoa n) = (if n = 0 then Some 0 else None)"
  using nat_dec_hd [of "nat n"] nat_dec_hd [of "nat (- n)"]
  by (auto simp: ParseDuration_def Itoa_def Let_def nat_dec_zero_iff duration_parts_digits nat_dec_digits)

lemma Itoa_nonempty [simp]: "Itoa n \<noteq> []"
  by (simp add: Itoa_def)

lemma SplitSeq_single: "sep \<notin> set s \<Longrightarrow> SplitSeq s sep = [s]"
  by (induction s) auto

lemma Itoa_chars: "c \<in> set (Itoa n) \<Longrightarrow> c = CHR ''-'' \<or> is_digit c"
  using nat_dec_digits by (auto simp: Itoa_def list_all_iff split: if_splits)

lemma no_scheme_prefix:
  assumes "u \<noteq> ''postgresql''" "CHR '':'' \<notin> set u"
  shows "\<not> HasPrefix (u @ CHR '':'' # s) ''postgresql://''"
proof
  assume "HasPrefix (u @ CHR '':'' # s) ''postgresql://''"
  then obtain t where t: "u @ CHR '':'' # s = ''postgresql'' @ CHR '':'' # ''//'' @ t"
    unfolding HasPrefix_def by (metis append_Cons append_Nil append_take_drop_id)
  have "Cut (u @ CHR '':'' # s) CHR '':'' = (u, s, True)" using assms(2) by (rule Cut_append)
  moreover have "Cut (''postgresql'' @ CHR '':'' # ''//'' @ t) CHR '':'' = (''postgresql'', ''//'' @ t, True)"
    by (rule Cut_append) simp
  ultimately show False using assms(1) unfolding t by simp
qed

section \<open>Properties\<close>

text \<open>
  C31. A configuration that loads is usable: the ports are ports, the upstream has an HTTP
  scheme, the rate is positive and at most the burst, and both fit Go's \<open>int\<close>; the Redis
  backend has a host and a pool, and a configured database has host, port, user and name.
\<close>

theorem config_load_valid:
  assumes "Load env = Inr c"
  shows "1 \<le> cfgPort c \<and> cfgPort c \<le> 65535
    \<and> (HasPrefix (UpstreamURL c) ''http://'' \<or> HasPrefix (UpstreamURL c) ''https://'')
    \<and> 0 < RateLimitRPS c \<and> RateLimitRPS c \<le> RateLimitBurst c \<and> int64 (RateLimitRPS c) \<and> int64 (RateLimitBurst c)
    \<and> (ToLower (RateLimitBackend c) = ''memory''
       \<or> (ToLower (RateLimitBackend c) = ''redis'' \<and> RedisHost c \<noteq> [] \<and> 1 \<le> RedisPort c \<and> RedisPort c \<le> 65535
          \<and> 0 < RedisPoolSize c))
    \<and> (DatabaseURL c \<noteq> [] \<or> DBUser c \<noteq> [] \<or> DBName c \<noteq> [] \<longrightarrow>
        DBHost c \<noteq> [] \<and> 1 \<le> DBPort c \<and> DBPort c \<le> 65535 \<and> DBUser c \<noteq> [] \<and> DBName c \<noteq> [])"
  using LoadD [OF assms] by (auto simp: validate_def validateDatabase_def split: if_splits)

lemma default_words: "ToLower ''memory'' = ''memory''" "ToLower ''info'' = ''info''"
  by (subst ToLower_ascii; simp add: is_ascii_def ascii_lower_def is_upper_def)+

lemma Load_default: "Load Map.empty = Inr (read_env Map.empty)"
  by (simp add: Load_def validate_def read_env_def getEnv_def getEnvInt_def getEnvBool_def getEnvDuration_def
      default_words HasPrefix_def Let_def)

theorem config_load_valid_witness:
  "\<exists>c. Load Map.empty = Inr c \<and> 0 < RateLimitRPS c \<and> RateLimitRPS c \<le> RateLimitBurst c"
  using Load_default config_load_valid [OF Load_default] by blast

text \<open>
  Numbers in the environment mean what they say: an integer that fits Go's \<open>int\<close>, written
  in decimal, is read back by \<open>getEnvInt\<close>, and \<open>getEnvDuration\<close> takes it as seconds (with
  the wrap-around of the multiplication), although \<open>ParseDuration\<close> comes first.
\<close>

theorem env_numbers_roundtrip:
  assumes "int64 n" "env key = Some (Itoa n)"
  shows "getEnvInt env key d = n \<and> getEnvDuration env key d' = wrap64 (n * second)"
  using assms by (simp add: getEnvInt_def getEnvDuration_def Atoi_Itoa ParseDuration_Itoa int64_def)

theorem env_numbers_roundtrip_witness:
  "getEnvDuration [''T'' \<mapsto> Itoa (- 30)] ''T'' 5 = - 30 * second"
  using env_numbers_roundtrip [of "- 30" "[''T'' \<mapsto> Itoa (- 30)]" "''T''" 1 5]
  by (simp add: int64_def)

text \<open>
  C32. A database URL of the documented form is taken apart into its parts: user up to the
  first colon, password up to the first at sign, host, port, name, and the \<open>sslmode\<close> of the
  query. The parts are taken as they stand, without decoding, and a password with an at sign
  is cut there.
\<close>

theorem database_url_parts:
  assumes "DatabaseURL c = ''postgres://'' @ u @ CHR '':'' # w @ CHR ''@'' # h @ CHR '':'' # Itoa p @ CHR ''/'' # n
      @ CHR ''?'' # ''sslmode='' @ m"
    and "u \<noteq> ''postgresql''" "int64 p"
    and "CHR '':'' \<notin> set u" "CHR ''@'' \<notin> set u" "CHR ''@'' \<notin> set w" "CHR '':'' \<notin> set h" "CHR ''/'' \<notin> set h"
    and "CHR ''?'' \<notin> set n" "CHR ''&'' \<notin> set m"
  shows "parseDatabaseURL c =
    Inr (c\<lparr>DBUser := u, DBPassword := w, DBName := n, DBSSLMode := m, DBHost := h, DBPort := p\<rparr>)"
proof -
  define q where "q = ''sslmode='' @ m"
  let ?rest = "w @ CHR ''@'' # h @ CHR '':'' # Itoa p @ CHR ''/'' # n @ CHR ''?'' # q"
  have 3: "SplitSeq q CHR ''&'' = [q]"
    unfolding q_def using assms(10) by (intro SplitSeq_single) auto
  have 4: "query_param q d = d\<lparr>DBSSLMode := m\<rparr>" for d
    using Cut_append [of "CHR ''=''" "''sslmode''" m] by (simp add: query_param_def q_def)
  have trim: "TrimPrefix (TrimPrefix (DatabaseURL c) ''postgres://'') ''postgresql://'' = u @ CHR '':'' # ?rest"
    unfolding assms(1) q_def [symmetric] TrimPrefix_append
    using no_scheme_prefix [OF assms(2,4)] by (simp add: TrimPrefix_def)
  have p: "CHR ''/'' \<notin> set (h @ CHR '':'' # Itoa p)"
    using assms(8) Itoa_chars [of "CHR ''/''" p] by (auto simp: is_digit_def)
  have 1: "Cut ((u @ CHR '':'' # w) @ CHR ''@'' # h @ CHR '':'' # Itoa p @ CHR ''/'' # n @ CHR ''?'' # q) CHR ''@''
      = (u @ CHR '':'' # w, h @ CHR '':'' # Itoa p @ CHR ''/'' # n @ CHR ''?'' # q, True)"
    using assms(5,6) by (intro Cut_append) auto
  have 2: "Cut ((h @ CHR '':'' # Itoa p) @ CHR ''/'' # n @ CHR ''?'' # q) CHR ''/''
      = (h @ CHR '':'' # Itoa p, n @ CHR ''?'' # q, True)"
    using p by (rule Cut_append)
  show ?thesis
    using 1 2 Cut_append [OF assms(4), of w] Cut_append [OF assms(9), of q]
      Cut_append [OF assms(7), of "Itoa p"] Atoi_Itoa [OF assms(3)]
    by (simp add: parseDatabaseURL_def trim 3 4)
qed

theorem database_url_parts_witness:
  "parseDatabaseURL ((read_env Map.empty)\<lparr>DatabaseURL := ''postgres://'' @ ''me'' @ CHR '':'' # ''pw'' @ CHR ''@''
       # ''db'' @ CHR '':'' # Itoa 5433 @ CHR ''/'' # ''gw'' @ CHR ''?'' # ''sslmode='' @ ''require''\<rparr>)
   = Inr ((read_env Map.empty)\<lparr>DatabaseURL := ''postgres://'' @ ''me'' @ CHR '':'' # ''pw'' @ CHR ''@''
       # ''db'' @ CHR '':'' # Itoa 5433 @ CHR ''/'' # ''gw'' @ CHR ''?'' # ''sslmode='' @ ''require'',
     DBUser := ''me'', DBPassword := ''pw'', DBName := ''gw'', DBSSLMode := ''require'', DBHost := ''db'', DBPort := 5433\<rparr>)"
  by (rule database_url_parts) (simp_all add: int64_def)

end
