(* ===== verification/Redis_Limiter.thy ===== *)
theory Redis_Limiter
  imports Token_Bucket Limiter_Interface Go_Strings
begin

text \<open>
  The Redis backend of \<open>internal/ratelimit/redis_limiter.go\<close>: the two Lua scripts, statement
  by statement on float64 numbers as Lua has them, and the methods around them. The server is
  a parameter, \<open>redis_ops\<close>; \<open>redis_laws\<close> states what its commands do to hash fields. A
  field is read as the number \<open>tonumber\<close> makes of it: the scripts and the client write
  numbers with all their digits, so a number comes back as it was stored.
\<close>

section \<open>The server\<close>

text \<open>
  \<open>FAULT\<close> is \<open>Some (executed, err)\<close> when the call of the client reports an error, whether or
  not the server has executed it.
\<close>

record 'r redis_ops =
  TIME :: "'r \<Rightarrow> int \<times> int"
  HGET :: "'r \<Rightarrow> string \<Rightarrow> string \<Rightarrow> f64 option"
  HMSET :: "string \<Rightarrow> (string \<times> f64) list \<Rightarrow> 'r \<Rightarrow> 'r"
  EXPIRE :: "string \<Rightarrow> f64 \<Rightarrow> 'r \<Rightarrow> 'r \<times> go_error option"
  DEL :: "string list \<Rightarrow> 'r \<Rightarrow> 'r"
  PING :: "duration \<Rightarrow> 'r \<Rightarrow> go_error option"
  CLOSE :: "'r \<Rightarrow> 'r \<times> go_error option"
  FAULT :: "'r \<Rightarrow> (bool \<times> go_error) option"

text \<open>
  The commands change the fields they name and no others, and not the clock, which stands
  still while a script runs; \<open>EXPIRE\<close> accepts a positive whole time to live and removes
  nothing now. What it does with another argument (it reports an error for an infinity) is
  left open.
\<close>

definition redis_laws :: "'r redis_ops \<Rightarrow> bool" where
  "redis_laws R \<longleftrightarrow>
     (\<forall>k fvs s k' f. HGET R (HMSET R k fvs s) k' f =
        (if k' = k \<and> f \<in> fst ` set fvs then map_of fvs f else HGET R s k' f))
     \<and> (\<forall>k x s k' f. k' \<noteq> k \<longrightarrow> HGET R (fst (EXPIRE R k x s)) k' f = HGET R s k' f)
     \<and> (\<forall>k t s k' f. 0 < t \<longrightarrow> t < 2 ^ 53 \<longrightarrow> snd (EXPIRE R k (Fin (of_int t)) s) = None
            \<and> HGET R (fst (EXPIRE R k (Fin (of_int t)) s)) k' f = HGET R s k' f)
     \<and> (\<forall>ks s k f. HGET R (DEL R ks s) k f = (if k \<in> set ks then None else HGET R s k f))
     \<and> (\<forall>k fvs s. TIME R (HMSET R k fvs s) = TIME R s) \<and> (\<forall>k x s. TIME R (fst (EXPIRE R k x s)) = TIME R s)
     \<and> (\<forall>ks s. TIME R (DEL R ks s) = TIME R s)"

lemma redis_lawsD:
  assumes "redis_laws R"
  shows "HGET R (HMSET R k fvs s) k' f = (if k' = k \<and> f \<in> fst ` set fvs then map_of fvs f else HGET R s k' f)"
    "k' \<noteq> k \<Longrightarrow> HGET R (fst (EXPIRE R k x s)) k' f = HGET R s k' f"
    "0 < t \<Longrightarrow> t < 2 ^ 53 \<Longrightarrow> HGET R (fst (EXPIRE R k (Fin (of_int t)) s)) k' f = HGET R s k' f"
    "0 < t \<Longrightarrow> t < 2 ^ 53 \<Longrightarrow> snd (EXPIRE R k (Fin (of_int t)) s) = None"
    "HGET R (DEL R ks s) k f = (if k \<in> set ks then None else HGET R s k f)"
    "TIME R (HMSET R k fvs s) = TIME R s" "TIME R (fst (EXPIRE R k x s)) = TIME R s" "TIME R (DEL R ks s) = TIME R s"
  using assms unfolding redis_laws_def by metis+

section \<open>The scripts\<close>

fun f64_floor :: "f64 \<Rightarrow> f64" where
  "f64_floor (Fin x) = Fin (of_int \<lfloor>x\<rfloor>)"
| "f64_floor x = x"

fun f64_ceil :: "f64 \<Rightarrow> f64" where
  "f64_ceil (Fin x) = Fin (of_int \<lceil>x\<rceil>)"
| "f64_ceil x = x"

definition lua_now :: "'r redis_ops \<Rightarrow> 'r \<Rightarrow> f64" where
  "lua_now R s =
     (let (seconds, microseconds) = TIME R s in
      f64_add (f64_mul (f64_of_int seconds) (Fin 1000)) (f64_floor (f64_div (f64_of_int microseconds) (Fin 1000))))"

definition lua_limits :: "'r redis_ops \<Rightarrow> string \<Rightarrow> f64 \<Rightarrow> f64 \<Rightarrow> 'r \<Rightarrow> f64 \<times> f64" where
  "lua_limits R k defaultCapacity defaultRefillRate s =
     (case (HGET R s (k @ '':cfg'') ''burst'', HGET R s (k @ '':cfg'') ''rps'') of
        (Some b, Some r) \<Rightarrow> (b, r)
      | _ \<Rightarrow> (defaultCapacity, defaultRefillRate))"

definition lua_refill :: "f64 \<Rightarrow> f64 \<Rightarrow> f64 \<Rightarrow> f64 \<Rightarrow> f64 \<Rightarrow> f64" where
  "lua_refill cap rate t before now =
     (let elapsed = f64_sub now before;
          elapsed = (if f64_lt elapsed (Fin 0) then Fin 0 else elapsed);
          newTokens = f64_add t (f64_div (f64_mul rate elapsed) (Fin 1000))
      in if f64_lt cap newTokens then cap else newTokens)"

definition lua_ttl :: "f64 \<Rightarrow> f64 \<Rightarrow> f64" where
  "lua_ttl cap rate = f64_add (f64_ceil (f64_mul (f64_div cap rate) (Fin 2))) (Fin 1)"

definition lua_nil_error :: go_error where
  "lua_nil_error = ErrorString ''attempt to perform arithmetic on a nil value''"

text \<open>
  The last commands of the script of \<open>AllowN\<close>: the new state and its expiry. An error of
  \<open>EXPIRE\<close> ends the script after the state is written.
\<close>

definition lua_write :: "'r redis_ops \<Rightarrow> string \<Rightarrow> f64 \<Rightarrow> f64 \<Rightarrow> f64 \<Rightarrow> f64 \<Rightarrow> 'r \<Rightarrow> 'r \<times> (go_error + f64)" where
  "lua_write R k newTokens now ttl result s =
     (case EXPIRE R k ttl (HMSET R k [(''tokens'', newTokens), (''lastRefill'', now)] s) of
        (s', Some err) \<Rightarrow> (s', Inl err)
      | (s', None) \<Rightarrow> (s', Inr result))"

text \<open>The atomic script of \<open>AllowN\<close>; an arithmetic error aborts it before any write.\<close>

definition tokenBucketScript :: "'r redis_ops \<Rightarrow> string \<Rightarrow> f64 \<Rightarrow> f64 \<Rightarrow> f64 \<Rightarrow> 'r \<Rightarrow> 'r \<times> (go_error + f64)" where
  "tokenBucketScript R k defaultCapacity defaultRefillRate requested s =
     (let now = lua_now R s;
          (cap, rate) = lua_limits R k defaultCapacity defaultRefillRate s
      in case (case HGET R s k ''tokens'' of
                 None \<Rightarrow> Some (cap, now)
               | Some t \<Rightarrow> map_option (\<lambda>l. (t, l)) (HGET R s k ''lastRefill'')) of
           None \<Rightarrow> (s, Inl lua_nil_error)
         | Some (t, before) \<Rightarrow>
             let newTokens = lua_refill cap rate t before now;
                 ttl = lua_ttl cap rate
             in if f64_le requested newTokens
                then lua_write R k (f64_sub newTokens requested) now ttl (Fin 1) s
                else lua_write R k newTokens now ttl (Fin 0) s)"

definition getTokensScript :: "'r redis_ops \<Rightarrow> string \<Rightarrow> f64 \<Rightarrow> f64 \<Rightarrow> 'r \<Rightarrow> go_error + f64" where
  "getTokensScript R k defaultCapacity defaultRefillRate s =
     (let now = lua_now R s;
          (cap, rate) = lua_limits R k defaultCapacity defaultRefillRate s
      in case HGET R s k ''tokens'' of
           None \<Rightarrow> Inr (f64_floor cap)
         | Some t \<Rightarrow>
             (case HGET R s k ''lastRefill'' of
                None \<Rightarrow> Inl lua_nil_error
              | Some before \<Rightarrow> Inr (f64_floor (lua_refill cap rate t before now))))"

section \<open>The limiter\<close>

record redis_config =
  redisHost :: string
  redisPort :: int
  redisPassword :: string
  redisDB :: int
  redisPoolSize :: int
  redisMinIdleConns :: int
  redisDialTimeout :: duration
  redisReadTimeout :: duration
  redisWriteTimeout :: duration
  redisKeyPrefix :: string

record 'r redis_limiter =
  rd_client :: 'r
  rd_config :: limiter_config
  keyPrefix :: string

text \<open>\<open>connect\<close> is \<open>redis.NewClient\<close> for the address and the other options.\<close>

definition NewRedisLimiter :: "'r redis_ops \<Rightarrow> (string \<Rightarrow> redis_config \<Rightarrow> 'r) \<Rightarrow> redis_config \<Rightarrow> limiter_config
    \<Rightarrow> go_error + 'r redis_limiter" where
  "NewRedisLimiter R connect redisCfg limitConfig =
     (if BurstSize limitConfig \<le> 0 then Inl (ErrorString ''burst size must be positive'')
      else if f64_le (TokensPerSecond limitConfig) (Fin 0)
        then Inl (ErrorString ''tokens per second must be positive'')
      else
        let cl = connect (redisHost redisCfg @ '':'' @ Itoa (redisPort redisCfg)) redisCfg in
        case PING R (5 * second) cl of
          Some err \<Rightarrow> let closed = CLOSE R cl in Inl (WrapError ''connect to redis'' err)
        | None \<Rightarrow>
            let prefix = (if redisKeyPrefix redisCfg = [] then ''ratelimit:'' else redisKeyPrefix redisCfg) in
            Inr \<lparr>rd_client = cl, rd_config = limitConfig, keyPrefix = prefix\<rparr>)"

definition redis_key :: "'r redis_limiter \<Rightarrow> string \<Rightarrow> string" where
  "redis_key r clientID = keyPrefix r @ clientID"

text \<open>
  A script call through the client: a fault hides the reply, and may hide an execution. The
  numbers the scripts return arrive as integers, so the type test of the reply always passes.
\<close>

definition RedisLimiter_AllowN :: "'r redis_ops \<Rightarrow> string \<Rightarrow> int \<Rightarrow> 'r redis_limiter
    \<Rightarrow> 'r redis_limiter \<times> (bool \<times> go_error option) outcome" where
  "RedisLimiter_AllowN R clientID n r =
     (if n \<le> 0 then (r, Ret (True, None))
      else
        let (s, reply) = tokenBucketScript R (redis_key r clientID) (f64_of_int (BurstSize (rd_config r)))
              (TokensPerSecond (rd_config r)) (f64_of_int n) (rd_client r)
        in case FAULT R (rd_client r) of
             Some (executed, err) \<Rightarrow>
               (if executed then r\<lparr>rd_client := s\<rparr> else r,
                Ret (False, Some (WrapError ''execute rate limit check'' err)))
           | None \<Rightarrow>
               (r\<lparr>rd_client := s\<rparr>, case reply of
                  Inl err \<Rightarrow> Ret (False, Some (WrapError ''execute rate limit check'' err))
                | Inr v \<Rightarrow> Ret (f64_to_int v = 1, None)))"

definition RedisLimiter_Allow :: "'r redis_ops \<Rightarrow> clock \<Rightarrow> string \<Rightarrow> 'r redis_limiter
    \<Rightarrow> 'r redis_limiter \<times> (bool \<times> go_error option) outcome" where
  "RedisLimiter_Allow R clk clientID r = RedisLimiter_AllowN R clientID 1 r"

definition RedisLimiter_Tokens :: "'r redis_ops \<Rightarrow> clock \<Rightarrow> string \<Rightarrow> 'r redis_limiter
    \<Rightarrow> 'r redis_limiter \<times> (int \<times> go_error option) outcome" where
  "RedisLimiter_Tokens R clk clientID r =
     (r, case FAULT R (rd_client r) of
           Some (executed, err) \<Rightarrow> Ret (0, Some (WrapError ''get token count'' err))
         | None \<Rightarrow>
             (case getTokensScript R (redis_key r clientID) (f64_of_int (BurstSize (rd_config r)))
                 (TokensPerSecond (rd_config r)) (rd_client r) of
                Inl err \<Rightarrow> Ret (0, Some (WrapError ''get token count'' err))
              | Inr v \<Rightarrow> Ret (f64_to_int v, None)))"

text \<open>The commands of the other two methods.\<close>

definition redis_command :: "'r redis_ops \<Rightarrow> ('r \<Rightarrow> 'r) \<Rightarrow> 'r redis_limiter \<Rightarrow> 'r redis_limiter \<times> go_error option outcome" where
  "redis_command R f r =
     (case FAULT R (rd_client r) of
        Some (executed, err) \<Rightarrow> (if executed then r\<lparr>rd_client := f (rd_client r)\<rparr> else r, Ret (Some err))
      | None \<Rightarrow> (r\<lparr>rd_client := f (rd_client r)\<rparr>, Ret None))"

definition RedisLimiter_SetLimit :: "'r redis_ops \<Rightarrow> clock \<Rightarrow> string \<Rightarrow> int \<Rightarrow> f64 \<Rightarrow> 'r redis_limiter
    \<Rightarrow> 'r redis_limiter \<times> go_error option outcome" where
  "RedisLimiter_SetLimit R clk clientID burst rps r =
     (let cfgKey = redis_key r clientID @ '':cfg'' in
      redis_command R (HMSET R cfgKey [(''burst'', f64_of_int burst), (''rps'', rps)]) r)"

definition RedisLimiter_Reset :: "'r redis_ops \<Rightarrow> clock \<Rightarrow> string \<Rightarrow> 'r redis_limiter
    \<Rightarrow> 'r redis_limiter \<times> go_error option outcome" where
  "RedisLimiter_Reset R clk clientID r =
     redis_command R (DEL R [redis_key r clientID, redis_key r clientID @ '':cfg'']) r"

definition RedisLimiter_Close :: "'r redis_ops \<Rightarrow> 'r redis_limiter \<Rightarrow> 'r redis_limiter \<times> go_error option outcome" where
  "RedisLimiter_Close R r =
     (let (s, err) = CLOSE R (rd_client r) in (r\<lparr>rd_client := s\<rparr>, Ret err))"

definition redis_limiter_ops :: "'r redis_ops \<Rightarrow> 'r redis_limiter limiter_ops" where
  "redis_limiter_ops R = \<lparr>op_Allow = RedisLimiter_Allow R, op_Tokens = RedisLimiter_Tokens R,
     op_Reset = RedisLimiter_Reset R, op_SetLimit = RedisLimiter_SetLimit R, op_Close = RedisLimiter_Close R\<rparr>"

end
