(* ===== verification/Redis_Bucket.thy ===== *)
theory Redis_Bucket
  imports Redis_Limiter
begin

text \<open>
  What the Lua scripts compute: the server clock in milliseconds, the refill, the expiry and
  the decision of \<open>AllowN\<close> as arithmetic on rationals, with every float64 rounding of the
  scripts kept.
\<close>

section \<open>The arithmetic of the scripts\<close>

definition server_time :: "'r redis_ops \<Rightarrow> 'r \<Rightarrow> int" where
  "server_time R s = fst (TIME R s) * 1000 + snd (TIME R s) div 1000"

definition clock_ok :: "'r redis_ops \<Rightarrow> 'r \<Rightarrow> bool" where
  "clock_ok R s \<longleftrightarrow> 0 \<le> fst (TIME R s) \<and> fst (TIME R s) \<le> 2 ^ 40
     \<and> 0 \<le> snd (TIME R s) \<and> snd (TIME R s) < 1000000"

lemma server_time_bounds: "clock_ok R s \<Longrightarrow> 0 \<le> server_time R s \<and> server_time R s \<le> 2 ^ 51"
  unfolding clock_ok_def server_time_def by auto

text \<open>The division by 1000 is rounded, its floor is still the whole number of milliseconds.\<close>

lemma micro_floor:
  assumes "0 \<le> u" "u < 1000000"
  shows "f64_floor (f64_div (f64_of_int u) (Fin 1000)) = Fin (of_int (u div 1000))"
proof -
  define x where "x = (of_int u / 1000 :: rat)"
  define k where "k = u div 1000"
  have ku: "1000 * k \<le> u" "u + 1 \<le> 1000 * k + 1000" "0 \<le> k" "k \<le> 1000"
    using assms by (auto simp: k_def)
  have "of_int (1000 * k) \<le> (of_int u :: rat)" "of_int (u + 1) \<le> (of_int (1000 * k + 1000) :: rat)"
    using ku by (simp_all only: of_int_le_iff)
  then have x: "of_int k \<le> x" "x \<le> of_int k + 1 - 1 / 1000" by (simp_all add: x_def field_simps)
  have x0: "0 \<le> x" "x \<le> 1001"
    using x ku(3,4) assms by (simp_all add: x_def field_simps)
  have lo: "of_int k \<le> rnd x" using x ku by (intro f64.rd_ge_rep rnd_of_int) auto
  have "(2::rat) powi (- 1075) \<le> 1 / 2 ^ 54"
    using powi2_le_iff [of "- 1075" "- 54"] by (simp add: power_int_minus_divide)
  then have "rnd x < of_int k + 1" using rnd_upper [OF x0(1)] x x0 by simp
  then have fl: "\<lfloor>rnd x\<rfloor> = k" using lo by (simp add: floor_unique)
  have "\<bar>x\<bar> \<le> 2 ^ 1023" using x0 by (intro pow2_le_1023 [of _ 10]) auto
  then have "f64_of_rat x = Fin (rnd x)" by (rule f64_of_rat_small)
  moreover have "f64_of_int u = Fin (of_int u)" using assms by (intro f64_of_int_exact) simp
  ultimately show ?thesis using fl by (simp add: x_def k_def)
qed

lemma lua_now_exact:
  assumes "clock_ok R s"
  shows "lua_now R s = Fin (of_int (server_time R s))"
proof -
  obtain a b where t: "TIME R s = (a, b)" by force
  have ab: "0 \<le> a" "a \<le> 2 ^ 40" "0 \<le> b" "b < 1000000" using assms by (simp_all add: clock_ok_def t)
  have "f64_of_int a = Fin (of_int a)" using ab by (intro f64_of_int_exact) simp
  moreover have "f64_of_rat (of_int (a * 1000)) = Fin (of_int (a * 1000))"
    using ab by (intro f64_of_rat_int) simp
  moreover have "f64_of_rat (of_int (a * 1000 + b div 1000)) = Fin (of_int (a * 1000 + b div 1000))"
    using ab by (intro f64_of_rat_int) auto
  ultimately show ?thesis using micro_floor [OF ab(3,4)]
    by (simp add: lua_now_def server_time_def t)
qed

definition lua_level :: "rat \<Rightarrow> rat \<Rightarrow> rat \<Rightarrow> int \<Rightarrow> rat" where
  "lua_level c r t e = min (rnd (t + rnd (rnd (r * of_int e) / 1000))) c"

lemma lua_refill_exact:
  assumes t: "0 \<le> t" and c: "c \<le> 2 ^ 63" and r: "0 \<le> r"
    and b: "\<bar>b\<bar> \<le> 2 ^ 52" and n: "\<bar>n\<bar> \<le> 2 ^ 52"
  shows "lua_refill (Fin c) (Fin r) (Fin t) (Fin (of_int b)) (Fin (of_int n)) = Fin (lua_level c r t (max 0 (n - b)))"
proof -
  define e where "e = max 0 (n - b)"
  have "\<bar>of_int (n - b) :: rat\<bar> \<le> of_int (2 ^ 53)"
    using b n by (simp only: of_int_abs [symmetric] of_int_le_iff) simp
  then have "\<bar>of_int n - of_int b :: rat\<bar> \<le> 2 ^ 53" by simp
  then have "\<bar>of_int n - of_int b :: rat\<bar> \<le> 2 ^ 1023" by (rule pow2_le_1023) simp
  moreover have "rnd (of_int (n - b)) = of_int (n - b)" using b n by (intro rnd_of_int) simp
  ultimately have "f64_sub (Fin (of_int n)) (Fin (of_int b)) = Fin (of_int (n - b))"
    by (simp add: f64_sub_small)
  then have el: "(if f64_lt (f64_sub (Fin (of_int n)) (Fin (of_int b))) (Fin 0) then Fin 0
      else f64_sub (Fin (of_int n)) (Fin (of_int b))) = Fin (of_int e)"
    by (simp add: e_def max_def del: of_int_diff)
  have y0: "0 \<le> r * of_int e" using r by (simp add: e_def)
  show ?thesis
  proof (cases "2 ^ 1024 \<le> rnd (r * of_int e)")
    case True
    have "(2::rat) ^ 1024 / 1000 \<le> rnd (r * of_int e) / 1000" using True by (rule divide_right_mono) simp
    moreover have "(2::rat) ^ 1014 \<le> 2 ^ 1024 / 1000" by (simp add: power_add [of 2 1014 10, simplified])
    ultimately have "2 ^ 1014 \<le> rnd (rnd (r * of_int e) / 1000)"
      by (intro f64.rd_ge_rep rnd_pow2) (rule order_trans)
    then have "2 ^ 1014 \<le> rnd (t + rnd (rnd (r * of_int e) / 1000))"
      using t by (intro f64.rd_ge_rep rnd_pow2) simp
    moreover have "(2::rat) ^ 63 \<le> 2 ^ 1014" by (rule power_increasing) auto
    ultimately have "lua_level c r t e = c" using c by (simp add: lua_level_def)
    moreover have "f64_mul (Fin r) (Fin (of_int e)) = PInf" using True y0 by (simp add: f64_of_rat_nonneg)
    ultimately show ?thesis by (simp only: lua_refill_def Let_def el e_def [symmetric]) (simp add: signed_inf_def)
  next
    case False
    have m: "f64_mul (Fin r) (Fin (of_int e)) = Fin (rnd (r * of_int e))"
      using False y0 by (simp add: f64_of_rat_nonneg)
    have d: "f64_div (Fin (rnd (r * of_int e))) (Fin 1000) = f64_of_rat (rnd (r * of_int e) / 1000)" by simp
    have "0 \<le> rnd (r * of_int e) / 1000" using y0 by (simp add: rnd_nonneg)
    from clamped_add [OF t c this] show ?thesis
      unfolding lua_refill_def Let_def el m d lua_level_def e_def [symmetric] .
  qed
qed

lemma lua_level_bounds:
  assumes "0 \<le> t" "rnd t = t" "t \<le> c" "rnd c = c" "0 \<le> r" "0 \<le> e"
  shows "t \<le> lua_level c r t e" "lua_level c r t e \<le> c" "rnd (lua_level c r t e) = lua_level c r t e"
proof -
  have "0 \<le> rnd (rnd (r * of_int e) / 1000)" using assms by (intro rnd_nonneg divide_nonneg_nonneg) auto
  then show "t \<le> lua_level c r t e" using assms unfolding lua_level_def by (intro f64.refill_grows)
  show "lua_level c r t e \<le> c" by (simp add: lua_level_def)
  show "rnd (lua_level c r t e) = lua_level c r t e" using assms(4) unfolding lua_level_def by (rule f64.clamp_rep)
qed

lemma lua_level_now [simp]: "rnd t = t \<Longrightarrow> t \<le> c \<Longrightarrow> lua_level c r t 0 = t"
  by (simp add: lua_level_def)

text \<open>The refill over \<open>e\<close> milliseconds is the exact one up to rounding.\<close>

lemma lua_level_upper:
  assumes "0 \<le> t" "1 \<le> c" "0 \<le> r" "0 \<le> e"
  shows "lua_level c r t e \<le> t + r * (of_int e / 1000) * (1 + 1 / 2 ^ 50) + c / 2 ^ 52"
proof -
  define y z a u where "y = r * of_int e" and "z = rnd y" and "a = rnd (z / 1000)"
    and "u = (2::rat) powi (- 1075)"
  have u: "0 < u" "u \<le> 1 / 2 ^ 60"
    using powi2_le_iff [of "- 1075" "- 60"] by (simp_all add: u_def power_int_minus_divide)
  have y: "0 \<le> y" using assms by (simp add: y_def)
  then have z: "0 \<le> z" "z \<le> y + y / 2 ^ 53 + u"
    using rnd_upper [OF y] by (simp_all add: z_def u_def rnd_nonneg)
  then have a: "0 \<le> a" "a \<le> z / 1000 + z / 1000 / 2 ^ 53 + u"
    using rnd_upper [of "z / 1000"] by (simp_all add: a_def u_def rnd_nonneg)
  have "a \<le> y / 1000 * (1 + 1 / 2 ^ 50) + 2 * u" using a(2) z(2) y u by simp
  moreover have "lua_level c r t e \<le> t + a + c / 2 ^ 53 + u"
    using clamp_upper [OF assms(1) a(1) assms(2)] unfolding lua_level_def a_def z_def y_def u_def .
  moreover have "3 * u + c / 2 ^ 53 \<le> c / 2 ^ 52" using u(2) assms(2) by simp
  ultimately have "lua_level c r t e \<le> t + y / 1000 * (1 + 1 / 2 ^ 50) + c / 2 ^ 52" by linarith
  then show ?thesis by (simp add: y_def)
qed

section \<open>The expiry\<close>

fun limits_ok :: "f64 \<Rightarrow> f64 \<Rightarrow> bool" where
  "limits_ok (Fin c) (Fin r) = (1 \<le> c \<and> c \<le> 2 ^ 50 \<and> rnd c = c \<and> 1 \<le> r \<and> rnd r = r)"
| "limits_ok _ _ = False"

text \<open>After the time to live the rate has filled a bucket, so forgetting it loses nothing.\<close>

lemma lua_ttl_exact:
  assumes "limits_ok (Fin c) (Fin r)"
  shows "\<exists>ttl. lua_ttl (Fin c) (Fin r) = Fin (of_int ttl) \<and> 0 < ttl \<and> ttl < 2 ^ 53 \<and> c \<le> r * of_int ttl"
proof -
  define x q w k where "x = c / r" and "q = rnd x" and "w = rnd (q * 2)" and "k = \<lceil>w\<rceil>"
  have cr: "1 \<le> c" "c \<le> 2 ^ 50" "1 \<le> r" using assms by auto
  have "x \<le> c" using cr by (simp add: x_def divide_le_eq)
  then have x: "0 < x" "x \<le> 2 ^ 50" using cr by (simp_all add: x_def)
  then have q: "0 \<le> q" "q \<le> 2 ^ 50" using rnd_abs_le_pow2 [of x 50] unfolding q_def by (simp_all add: rnd_nonneg)
  then have w: "0 \<le> w" "w \<le> 2 ^ 51" using rnd_abs_le_pow2 [of "q * 2" 51] unfolding w_def by (simp_all add: rnd_nonneg)
  have k: "0 \<le> k" "k \<le> 2 ^ 51" "w \<le> of_int k"
    using w by (simp_all add: k_def ceiling_le_iff)
  have "f64_of_rat x = Fin q" unfolding q_def using x by (intro f64_of_rat_small pow2_le_1023 [of _ 50]) auto
  moreover have "f64_of_rat (q * 2) = Fin w"
    unfolding w_def using q by (intro f64_of_rat_small pow2_le_1023 [of _ 51]) auto
  moreover have "f64_of_rat (of_int (k + 1)) = Fin (of_int (k + 1))" using k by (intro f64_of_rat_int) simp
  ultimately have ttl: "lua_ttl (Fin c) (Fin r) = Fin (of_int (k + 1))"
    using cr by (simp add: lua_ttl_def x_def [symmetric] k_def [symmetric])
  have u: "(2::rat) powi (- 1075) \<le> 1 / 2 ^ 54"
    using powi2_le_iff [of "- 1075" "- 54"] by (simp add: power_int_minus_divide)
  have "x - q \<le> x / 2 ^ 53 + 2 powi (- 1075)" "q * 2 - w \<le> q * 2 / 2 ^ 53 + 2 powi (- 1075)"
    using rnd_error [of x] rnd_error [of "q * 2"] x q by (simp_all add: q_def w_def)
  then have "x \<le> w + 1" using u x q by simp
  then have "x \<le> of_int (k + 1)" using k by simp
  then have "c \<le> r * of_int (k + 1)" using cr by (simp add: x_def divide_le_eq mult.commute)
  then show ?thesis using ttl k by (intro exI [of _ "k + 1"]) auto
qed

section \<open>The decision of the script\<close>

text \<open>The stored level and its time, and the level a call finds at a server time.\<close>

definition stored :: "'r redis_ops \<Rightarrow> string \<Rightarrow> 'r \<Rightarrow> f64 option \<times> f64 option" where
  "stored R k s = (HGET R s k ''tokens'', HGET R s k ''lastRefill'')"

fun stored_ok :: "rat \<Rightarrow> f64 option \<times> f64 option \<Rightarrow> bool" where
  "stored_ok c (None, l) = True"
| "stored_ok c (Some (Fin t), Some (Fin l)) =
     (0 \<le> t \<and> t \<le> c \<and> rnd t = t \<and> l = of_int \<lfloor>l\<rfloor> \<and> 0 \<le> \<lfloor>l\<rfloor> \<and> \<lfloor>l\<rfloor> \<le> 2 ^ 51)"
| "stored_ok c st = False"

fun available :: "rat \<Rightarrow> rat \<Rightarrow> int \<Rightarrow> f64 option \<times> f64 option \<Rightarrow> rat" where
  "available c r now (Some (Fin t), Some (Fin l)) = lua_level c r t (max 0 (now - \<lfloor>l\<rfloor>))"
| "available c r now st = c"

lemma available_bounds:
  assumes "stored_ok c st" "limits_ok (Fin c) (Fin r)"
  shows "0 \<le> available c r now st" "available c r now st \<le> c" "rnd (available c r now st) = available c r now st"
  using assms lua_level_bounds
  by (induction c r now st rule: available.induct) (auto intro: order_trans)

lemma rnd_request_iff:
  assumes "0 < n" "t \<le> 2 ^ 50"
  shows "rnd (of_int n) \<le> t \<longleftrightarrow> of_int n \<le> t"
  using assms by (intro rnd_int_le_iff) auto

lemma lua_write_exact:
  assumes R: "redis_laws R" and ttl: "0 < ttl" "ttl < 2 ^ 53"
  obtains s' where "lua_write R k a b (Fin (of_int ttl)) v s = (s', Inr v)" "stored R k s' = (Some a, Some b)"
    "TIME R s' = TIME R s" "\<And>k' f. k' \<noteq> k \<Longrightarrow> HGET R s' k' f = HGET R s k' f"
    "\<And>k' f. f \<noteq> ''tokens'' \<Longrightarrow> f \<noteq> ''lastRefill'' \<Longrightarrow> HGET R s' k' f = HGET R s k' f"
proof
  define s' where "s' = fst (EXPIRE R k (Fin (of_int ttl)) (HMSET R k [(''tokens'', a), (''lastRefill'', b)] s))"
  note l = redis_lawsD [OF R]
  show "lua_write R k a b (Fin (of_int ttl)) v s = (s', Inr v)"
    using l(4) [OF ttl] by (simp add: lua_write_def s'_def split_def)
  show "stored R k s' = (Some a, Some b)" using ttl by (simp add: stored_def s'_def l(1,3))
  show "TIME R s' = TIME R s" by (simp add: s'_def l(6,7))
  show "HGET R s' k' f = HGET R s k' f" if "k' \<noteq> k" for k' f using that ttl by (simp add: s'_def l(1,3))
  show "HGET R s' k' f = HGET R s k' f" if "f \<noteq> ''tokens''" "f \<noteq> ''lastRefill''" for k' f
    using that ttl by (simp add: s'_def l(1,3))
qed

lemma script_reads:
  assumes "limits_ok (Fin c) (Fin r)" "stored_ok c (stored R k s)" "clock_ok R s"
  obtains t l where "(case HGET R s k ''tokens'' of None \<Rightarrow> Some (Fin c, Fin (of_int (server_time R s)))
      | Some t \<Rightarrow> map_option (\<lambda>l. (t, l)) (HGET R s k ''lastRefill'')) = Some (Fin t, Fin (of_int l))"
    "0 \<le> t" "\<bar>l\<bar> \<le> 2 ^ 52"
    "lua_level c r t (max 0 (server_time R s - l)) = available c r (server_time R s) (stored R k s)"
proof (cases "HGET R s k ''tokens''")
  case None
  then show thesis
    using that [of c "server_time R s"] assms(1) server_time_bounds [OF assms(3)] by (simp add: stored_def)
next
  case (Some t)
  then obtain x y where t: "HGET R s k ''tokens'' = Some (Fin x)" "HGET R s k ''lastRefill'' = Some (Fin y)"
    using assms(2) by (cases "HGET R s k ''lastRefill''"; cases t; cases "the (HGET R s k ''lastRefill'')")
      (auto simp: stored_def)
  then have "0 \<le> x" "y = of_int \<lfloor>y\<rfloor>" "0 \<le> \<lfloor>y\<rfloor>" "\<lfloor>y\<rfloor> \<le> 2 ^ 51" using assms(2) by (simp_all add: stored_def)
  then show thesis using that [of x "\<lfloor>y\<rfloor>"] t by (simp add: stored_def)
qed

lemma tokenBucketScript_exact:
  assumes R: "redis_laws R" and lims: "lua_limits R k dc dr s = (Fin c, Fin r)"
    and ok: "limits_ok (Fin c) (Fin r)" and st: "stored_ok c (stored R k s)" and clk: "clock_ok R s"
    and n: "0 < n" "int64 n" and a: "a = available c r (server_time R s) (stored R k s)"
  obtains s' where
    "tokenBucketScript R k dc dr (f64_of_int n) s = (s', Inr (Fin (if of_int n \<le> a then 1 else 0)))"
    "stored R k s' = (Some (Fin (a - (if of_int n \<le> a then of_int n else 0))), Some (Fin (of_int (server_time R s))))"
    "TIME R s' = TIME R s" "\<And>k' f. k' \<noteq> k \<Longrightarrow> HGET R s' k' f = HGET R s k' f"
    "\<And>k' f. f \<noteq> ''tokens'' \<Longrightarrow> f \<noteq> ''lastRefill'' \<Longrightarrow> HGET R s' k' f = HGET R s k' f"
proof -
  define now where "now = server_time R s"
  obtain t l where rd: "(case HGET R s k ''tokens'' of None \<Rightarrow> Some (Fin c, Fin (of_int now))
      | Some t \<Rightarrow> map_option (\<lambda>l. (t, l)) (HGET R s k ''lastRefill'')) = Some (Fin t, Fin (of_int l))"
    and t: "0 \<le> t" "\<bar>l\<bar> \<le> 2 ^ 52" and lv: "lua_level c r t (max 0 (now - l)) = a"
    using script_reads [OF ok st clk] unfolding a now_def by blast
  have c: "c \<le> 2 ^ 50" "0 \<le> r" using ok by auto
  have b: "0 \<le> a" "a \<le> c" "rnd a = a" using available_bounds [OF st ok] by (simp_all add: a)
  have "\<bar>now\<bar> \<le> 2 ^ 52" using server_time_bounds [OF clk] by (simp add: now_def)
  then have rf: "lua_refill (Fin c) (Fin r) (Fin t) (Fin (of_int l)) (Fin (of_int now)) = Fin a"
    using lua_refill_exact [OF t(1) _ c(2) t(2)] c lv by simp
  have fn: "f64_of_int n = Fin (rnd (of_int n))" using n by (intro f64_of_int_int64) (auto simp: int64_def)
  have le: "f64_le (f64_of_int n) (Fin a) \<longleftrightarrow> of_int n \<le> a"
    using rnd_request_iff [OF n(1), of a] b c by (simp add: fn)
  have sub: "f64_sub (Fin a) (f64_of_int n) = Fin (a - of_int n)" if na: "of_int n \<le> a"
  proof -
    have "of_int n \<le> (of_int (2 ^ 50) :: rat)" using na b c by simp
    then have n50: "n \<le> 2 ^ 50" by (simp only: of_int_le_iff)
    have "\<bar>a - of_int n\<bar> \<le> 2 ^ 1023" using na b c n by (intro pow2_le_1023 [of _ 50]) auto
    moreover have "f64_of_int n = Fin (of_int n)" using n n50 by (intro f64_of_int_exact) simp
    ultimately show ?thesis using rnd_sub_int_exact [OF b(3) _ na] n n50 b c by (simp add: f64_sub_small)
  qed
  obtain ttl where ttl: "lua_ttl (Fin c) (Fin r) = Fin (of_int ttl)" "0 < ttl" "ttl < 2 ^ 53"
    using lua_ttl_exact [OF ok] by blast
  have nw: "lua_now R s = Fin (of_int now)" unfolding now_def by (rule lua_now_exact [OF clk])
  have scr: "tokenBucketScript R k dc dr (f64_of_int n) s =
    lua_write R k (Fin (a - (if of_int n \<le> a then of_int n else 0))) (Fin (of_int now)) (Fin (of_int ttl))
      (Fin (if of_int n \<le> a then 1 else 0)) s"
    unfolding tokenBucketScript_def Let_def lims nw prod.case rd option.case rf ttl(1) le
    using sub by (cases "of_int n \<le> a") simp_all
  show thesis
    by (rule lua_write_exact [OF R ttl(2,3), of k "Fin (a - (if of_int n \<le> a then of_int n else 0))"
          "Fin (of_int now)" "Fin (if of_int n \<le> a then 1 else 0)" s],
        rule that [unfolded scr, folded now_def])
qed

lemma getTokensScript_exact:
  assumes lims: "lua_limits R k dc dr s = (Fin c, Fin r)" and ok: "limits_ok (Fin c) (Fin r)"
    and st: "stored_ok c (stored R k s)" and clk: "clock_ok R s"
  shows "getTokensScript R k dc dr s = Inr (Fin (of_int \<lfloor>available c r (server_time R s) (stored R k s)\<rfloor>))"
proof -
  define now where "now = server_time R s"
  obtain t l where rd: "(case HGET R s k ''tokens'' of None \<Rightarrow> Some (Fin c, Fin (of_int now))
      | Some t \<Rightarrow> map_option (\<lambda>l. (t, l)) (HGET R s k ''lastRefill'')) = Some (Fin t, Fin (of_int l))"
    and t: "0 \<le> t" "\<bar>l\<bar> \<le> 2 ^ 52"
    and lv: "lua_level c r t (max 0 (now - l)) = available c r now (stored R k s)"
    using script_reads [OF ok st clk] unfolding now_def by blast
  have c: "c \<le> 2 ^ 50" "0 \<le> r" using ok by auto
  have "\<bar>now\<bar> \<le> 2 ^ 52" using server_time_bounds [OF clk] by (simp add: now_def)
  then have rf: "lua_refill (Fin c) (Fin r) (Fin t) (Fin (of_int l)) (Fin (of_int now))
      = Fin (available c r now (stored R k s))"
    using lua_refill_exact [OF t(1) _ c(2) t(2)] c lv by simp
  show ?thesis
  proof (cases "HGET R s k ''tokens''")
    case None
    then show ?thesis by (simp add: getTokensScript_def lims stored_def)
  next
    case (Some u)
    moreover have "lua_now R s = Fin (of_int now)" unfolding now_def by (rule lua_now_exact [OF clk])
    ultimately show ?thesis using rd rf unfolding now_def [symmetric]
      by (auto simp: getTokensScript_def lims)
  qed
qed

end
