(* ===== verification/Redis_Table.thy ===== *)
theory Redis_Table
  imports Redis_Bucket
begin

text \<open>
  The methods of the Redis backend: what \<open>AllowN\<close> and \<open>Tokens\<close> return and store, the
  independence of clients whose keys do not meet, and a server with hashes and deadlines on
  which the laws of \<open>redis_laws\<close> hold and the theorems are tried.
\<close>

section \<open>A server\<close>

record table_server =
  tbl_time :: "int \<times> int"
  hashes :: "string \<Rightarrow> string \<rightharpoonup> f64"
  deadlines :: "string \<rightharpoonup> int"

definition tbl_ms :: "table_server \<Rightarrow> int" where
  "tbl_ms s = fst (tbl_time s) * 1000 + snd (tbl_time s) div 1000"

definition live :: "table_server \<Rightarrow> string \<Rightarrow> bool" where
  "live s k = (case deadlines s k of None \<Rightarrow> True | Some d \<Rightarrow> tbl_ms s < d)"

definition tbl_drop :: "string \<Rightarrow> table_server \<Rightarrow> table_server" where
  "tbl_drop k s = s\<lparr>hashes := (hashes s)(k := Map.empty), deadlines := (deadlines s)(k := None)\<rparr>"

definition tbl_hmset :: "string \<Rightarrow> (string \<times> f64) list \<Rightarrow> table_server \<Rightarrow> table_server" where
  "tbl_hmset k fvs s = (let s' = (if live s k then s else tbl_drop k s) in
     s'\<lparr>hashes := (hashes s')(k := hashes s' k ++ map_of fvs)\<rparr>)"

fun tbl_expire :: "string \<Rightarrow> f64 \<Rightarrow> table_server \<Rightarrow> table_server \<times> go_error option" where
  "tbl_expire k (Fin t) s =
     (if t \<noteq> of_int \<lfloor>t\<rfloor> then (s, Some (ErrorString ''value is not an integer or out of range''))
      else if \<not> live s k then (s, None)
      else if t \<le> 0 then (tbl_drop k s, None)
      else (s\<lparr>deadlines := (deadlines s)(k \<mapsto> tbl_ms s + \<lfloor>t\<rfloor> * 1000)\<rparr>, None))"
| "tbl_expire k x s = (s, Some (ErrorString ''value is not an integer or out of range''))"

definition table_redis :: "table_server redis_ops" where
  "table_redis = \<lparr>TIME = tbl_time, HGET = (\<lambda>s k f. if live s k then hashes s k f else None),
     HMSET = tbl_hmset, EXPIRE = tbl_expire, DEL = (\<lambda>ks s. fold tbl_drop ks s),
     PING = (\<lambda>d s. None), CLOSE = (\<lambda>s. (s, None)), FAULT = (\<lambda>s. None)\<rparr>"

lemma tbl_ms_simps [simp]:
  "tbl_ms (s\<lparr>hashes := h\<rparr>) = tbl_ms s" "tbl_ms (s\<lparr>deadlines := d\<rparr>) = tbl_ms s"
  by (simp_all add: tbl_ms_def)

lemma live_simps [simp]:
  "live (s\<lparr>hashes := h\<rparr>) k = live s k"
  "live (s\<lparr>deadlines := d\<rparr>) k = (case d k of None \<Rightarrow> True | Some t \<Rightarrow> tbl_ms s < t)"
  by (simp_all add: live_def split: option.split)

lemma live_drop [simp]: "live (tbl_drop k s) k' = (k' = k \<or> live s k')"
  by (auto simp: tbl_drop_def live_def split: option.splits)

lemma hget_table: "HGET table_redis s k f = (if live s k then hashes s k f else None)"
  by (simp add: table_redis_def)

lemma hget_drop [simp]: "HGET table_redis (tbl_drop x s) k f = (if k = x then None else HGET table_redis s k f)"
  by (simp add: hget_table) (simp add: tbl_drop_def)

lemma hget_drops: "HGET table_redis (fold tbl_drop ks s) k f = (if k \<in> set ks then None else HGET table_redis s k f)"
  by (induction ks arbitrary: s) auto

lemma hget_hmset: "HGET table_redis (tbl_hmset k fvs s) k' f =
    (if k' = k \<and> f \<in> fst ` set fvs then map_of fvs f else HGET table_redis s k' f)"
proof -
  have "f \<in> fst ` set fvs \<longleftrightarrow> map_of fvs f \<noteq> None" by (simp add: map_of_eq_None_iff)
  then show ?thesis
    by (auto simp: hget_table tbl_hmset_def Let_def map_add_def split: option.splits)
      (auto simp: tbl_drop_def)
qed

lemma expire_positive: "0 < t \<Longrightarrow> tbl_expire k (Fin (of_int t)) s =
     (if live s k then s\<lparr>deadlines := (deadlines s)(k \<mapsto> tbl_ms s + t * 1000)\<rparr> else s, None)"
  by simp

lemma hget_expire_other: "k' \<noteq> k \<Longrightarrow> HGET table_redis (fst (tbl_expire k x s)) k' f = HGET table_redis s k' f"
  by (cases x; auto simp: hget_table live_def tbl_drop_def split: option.splits)

lemma table_redis_laws: "redis_laws table_redis"
proof -
  have "tbl_time (tbl_hmset k fvs s) = tbl_time s" for k fvs s
    by (simp add: tbl_hmset_def Let_def tbl_drop_def)
  moreover have "tbl_time (fst (tbl_expire k x s)) = tbl_time s" for k x s
    by (cases x) (simp_all add: tbl_drop_def)
  moreover have "tbl_time (fold tbl_drop ks s) = tbl_time s" for ks s
    by (induction ks arbitrary: s) (simp_all add: tbl_drop_def)
  moreover have "HGET table_redis (fst (tbl_expire k (Fin (of_int t)) s)) k' f = HGET table_redis s k' f"
    if "0 < t" for k k' f t s
    using that by (auto simp: expire_positive hget_table live_def split: option.splits)
  moreover have "TIME table_redis = tbl_time" "HMSET table_redis = tbl_hmset" "EXPIRE table_redis = tbl_expire"
    "DEL table_redis = (\<lambda>ks s. fold tbl_drop ks s)"
    by (simp_all add: table_redis_def)
  ultimately show ?thesis
    unfolding redis_laws_def using hget_drops hget_hmset hget_expire_other expire_positive
    by (simp del: tbl_expire.simps)
qed

section \<open>Clients are independent\<close>

text \<open>
  What the backend holds about a client: the state of its bucket and its own limits. Two
  clients are independent when neither identifier is the other one with \<open>:cfg\<close> appended,
  for that is the key under which the limits are kept.
\<close>

definition redis_view :: "'r redis_ops \<Rightarrow> 'r redis_limiter \<Rightarrow> string
    \<Rightarrow> (f64 option \<times> f64 option) \<times> f64 option \<times> f64 option" where
  "redis_view R r clientID = (stored R (redis_key r clientID) (rd_client r),
     HGET R (rd_client r) (redis_key r clientID @ '':cfg'') ''burst'',
     HGET R (rd_client r) (redis_key r clientID @ '':cfg'') ''rps'')"

definition redis_indep :: "string \<Rightarrow> string \<Rightarrow> bool" where
  "redis_indep c d \<longleftrightarrow> c \<noteq> d \<and> c \<noteq> d @ '':cfg'' \<and> d \<noteq> c @ '':cfg''"

lemma redis_view_cong:
  assumes "keyPrefix r' = keyPrefix r"
    and "\<And>f. HGET R (rd_client r') (redis_key r d) f = HGET R (rd_client r) (redis_key r d) f"
    and "\<And>f. HGET R (rd_client r') (redis_key r d @ '':cfg'') f = HGET R (rd_client r) (redis_key r d @ '':cfg'') f"
  shows "redis_view R r' d = redis_view R r d"
  using assms by (simp add: redis_view_def redis_key_def stored_def)

lemma redis_indep_keys:
  assumes "redis_indep c d"
  shows "redis_key r d \<noteq> redis_key r c" "redis_key r d \<noteq> redis_key r c @ '':cfg''"
    "redis_key r d @ '':cfg'' \<noteq> redis_key r c" "redis_key r d @ '':cfg'' \<noteq> redis_key r c @ '':cfg''"
  using assms by (auto simp: redis_indep_def redis_key_def)

lemma script_frame:
  assumes "redis_laws R" "k' \<noteq> k"
  shows "HGET R (fst (tokenBucketScript R k dc dr q s)) k' f = HGET R s k' f"
proof -
  have "HGET R (fst (lua_write R k a b t v s)) k' f = HGET R s k' f" for a b t v
  proof -
    obtain s1 e where e: "EXPIRE R k t (HMSET R k [(''tokens'', a), (''lastRefill'', b)] s) = (s1, e)" by force
    then have "HGET R s1 k' f = HGET R (HMSET R k [(''tokens'', a), (''lastRefill'', b)] s) k' f"
      using redis_lawsD(2) [OF assms] by (metis fst_conv)
    then show ?thesis using e assms(2) redis_lawsD(1) [OF assms(1)]
      by (cases e) (simp_all add: lua_write_def)
  qed
  then show ?thesis
    by (auto simp: tokenBucketScript_def Let_def split: prod.split option.split)
qed

lemma AllowN_client:
  "fst (RedisLimiter_AllowN R c n r) = r \<or> (\<exists>dc dr q.
     fst (RedisLimiter_AllowN R c n r) = r\<lparr>rd_client := fst (tokenBucketScript R (redis_key r c) dc dr q (rd_client r))\<rparr>)"
proof -
  obtain s' v where "tokenBucketScript R (redis_key r c) (f64_of_int (BurstSize (rd_config r)))
      (TokensPerSecond (rd_config r)) (f64_of_int n) (rd_client r) = (s', v)" by force
  moreover from this have "fst (RedisLimiter_AllowN R c n r) \<in> {r, r\<lparr>rd_client := s'\<rparr>}"
    by (simp add: RedisLimiter_AllowN_def split: option.split)
  ultimately show ?thesis by (metis fst_conv insertE singletonD)
qed

lemma redis_limiter_locale:
  assumes "redis_laws R"
  shows "limiter (redis_limiter_ops R) (redis_view R) (\<lambda>_. True) redis_indep"
proof
  fix r :: "'a redis_limiter" and c d :: string and clk :: clock and b :: int and x :: f64
  assume i: "redis_indep c d"
  note k = redis_indep_keys [OF i, of r]
  show "redis_view R (fst (op_Allow (redis_limiter_ops R) clk c r)) d = redis_view R r d"
    using AllowN_client [of R c 1 r] k script_frame [OF assms]
    by (auto simp: redis_limiter_ops_def RedisLimiter_Allow_def intro!: redis_view_cong)
  show "redis_view R (fst (op_Tokens (redis_limiter_ops R) clk c r)) d = redis_view R r d"
    by (simp add: redis_limiter_ops_def RedisLimiter_Tokens_def)
  show "redis_view R (fst (op_SetLimit (redis_limiter_ops R) clk c b x r)) d = redis_view R r d"
    using k by (auto simp: redis_limiter_ops_def RedisLimiter_SetLimit_def redis_command_def Let_def
        redis_lawsD(1) [OF assms] split: option.split intro!: redis_view_cong)
  show "redis_view R (fst (op_Reset (redis_limiter_ops R) clk c r)) d = redis_view R r d"
    using k by (auto simp: redis_limiter_ops_def RedisLimiter_Reset_def redis_command_def
        redis_lawsD(5) [OF assms] split: option.split intro!: redis_view_cong)
qed simp_all

text \<open>The same with the clock of the server and the settings of the limiter in view, which no operation changes.\<close>

lemma script_time:
  assumes "redis_laws R"
  shows "TIME R (fst (tokenBucketScript R k dc dr q s)) = TIME R s"
proof -
  have "TIME R (fst (lua_write R k a b t v s)) = TIME R s" for a b t v
  proof -
    obtain s1 e where e: "EXPIRE R k t (HMSET R k [(''tokens'', a), (''lastRefill'', b)] s) = (s1, e)" by force
    then have "TIME R s1 = TIME R s" using redis_lawsD(6,7) [OF assms] by (metis fst_conv)
    then show ?thesis using e by (cases e) (simp_all add: lua_write_def)
  qed
  then show ?thesis
    by (auto simp: tokenBucketScript_def Let_def split: prod.split option.split)
qed

definition redis_frame :: "'r redis_ops \<Rightarrow> 'r redis_limiter \<Rightarrow> (int \<times> int) \<times> limiter_config \<times> string" where
  "redis_frame R r = (TIME R (rd_client r), rd_config r, keyPrefix r)"

lemma redis_ops_frame:
  assumes "redis_laws R"
  shows "redis_frame R (fst (op_Allow (redis_limiter_ops R) clk c r)) = redis_frame R r"
    "redis_frame R (fst (op_Tokens (redis_limiter_ops R) clk c r)) = redis_frame R r"
    "redis_frame R (fst (op_SetLimit (redis_limiter_ops R) clk c b x r)) = redis_frame R r"
    "redis_frame R (fst (op_Reset (redis_limiter_ops R) clk c r)) = redis_frame R r"
proof -
  show "redis_frame R (fst (op_Allow (redis_limiter_ops R) clk c r)) = redis_frame R r"
    using AllowN_client [of R c 1 r] script_time [OF assms]
    by (auto simp: redis_frame_def redis_limiter_ops_def RedisLimiter_Allow_def)
qed (simp_all add: redis_frame_def redis_limiter_ops_def RedisLimiter_Tokens_def RedisLimiter_SetLimit_def
    RedisLimiter_Reset_def redis_command_def Let_def redis_lawsD(6,8) [OF assms] split: option.split)

lemma redis_framed_locale:
  assumes "redis_laws R"
  shows "limiter (redis_limiter_ops R) (\<lambda>r d. (redis_view R r d, redis_frame R r)) (\<lambda>_. True) redis_indep"
proof -
  note l = redis_limiter_locale [OF assms]
  show ?thesis
    by unfold_locales (simp_all add: redis_ops_frame [OF assms] limiter.allow_other [OF l] limiter.tokens_other [OF l]
        limiter.set_limit_other [OF l] limiter.reset_other [OF l])
qed

interpretation red: limiter "redis_limiter_ops table_redis" "redis_view table_redis" "\<lambda>_. True" redis_indep
  by (rule redis_limiter_locale [OF table_redis_laws])

section \<open>What a call returns and stores\<close>

text \<open>
  The situation the exact theorems speak of: the limits in force for the client are at least
  1 and at most \<open>2 ^ 50\<close> tokens and at least one token a second, its stored state is one the
  scripts write, the server clock is sane, and the call gets through.
\<close>

definition redis_ready :: "'r redis_ops \<Rightarrow> 'r redis_limiter \<Rightarrow> string \<Rightarrow> rat \<Rightarrow> rat \<Rightarrow> bool" where
  "redis_ready R r clientID c rate \<longleftrightarrow>
     lua_limits R (redis_key r clientID) (f64_of_int (BurstSize (rd_config r))) (TokensPerSecond (rd_config r))
       (rd_client r) = (Fin c, Fin rate)
     \<and> limits_ok (Fin c) (Fin rate) \<and> stored_ok c (stored R (redis_key r clientID) (rd_client r))
     \<and> clock_ok R (rd_client r)"

definition redis_available :: "'r redis_ops \<Rightarrow> 'r redis_limiter \<Rightarrow> string \<Rightarrow> rat \<Rightarrow> rat \<Rightarrow> rat" where
  "redis_available R r clientID c rate =
     available c rate (server_time R (rd_client r)) (stored R (redis_key r clientID) (rd_client r))"

lemma int_of_Fin: "int64 k \<Longrightarrow> f64_to_int (Fin (of_int k)) = k"
  by (simp add: rat_trunc_def)

lemma redis_AllowN_exact:
  assumes R: "redis_laws R" and rdy: "redis_ready R r x c rate" and n: "0 < n" "int64 n"
    and ok: "ok = (of_int n \<le> redis_available R r x c rate)"
  obtains s' where
    "RedisLimiter_AllowN R x n r = (case FAULT R (rd_client r) of
        Some (executed, err) \<Rightarrow> (if executed then r\<lparr>rd_client := s'\<rparr> else r,
          Ret (False, Some (WrapError ''execute rate limit check'' err)))
      | None \<Rightarrow> (r\<lparr>rd_client := s'\<rparr>, Ret (ok, None)))"
    "stored R (redis_key r x) s' = (Some (Fin (redis_available R r x c rate - (if ok then of_int n else 0))),
       Some (Fin (of_int (server_time R (rd_client r)))))"
    "TIME R s' = TIME R (rd_client r)"
    "\<And>k' f. f \<noteq> ''tokens'' \<Longrightarrow> f \<noteq> ''lastRefill'' \<Longrightarrow> HGET R s' k' f = HGET R (rd_client r) k' f"
proof -
  define k where "k = redis_key r x"
  define a where "a = redis_available R r x c rate"
  have q: "lua_limits R k (f64_of_int (BurstSize (rd_config r))) (TokensPerSecond (rd_config r)) (rd_client r)
      = (Fin c, Fin rate)" "limits_ok (Fin c) (Fin rate)" "stored_ok c (stored R k (rd_client r))"
    "clock_ok R (rd_client r)" using rdy by (simp_all add: redis_ready_def k_def)
  have a': "a = available c rate (server_time R (rd_client r)) (stored R k (rd_client r))"
    by (simp add: a_def redis_available_def k_def)
  obtain s' where w: "tokenBucketScript R k (f64_of_int (BurstSize (rd_config r))) (TokensPerSecond (rd_config r))
        (f64_of_int n) (rd_client r) = (s', Inr (Fin (if of_int n \<le> a then 1 else 0)))"
      "stored R k s' = (Some (Fin (a - (if of_int n \<le> a then of_int n else 0))),
         Some (Fin (of_int (server_time R (rd_client r)))))"
      "TIME R s' = TIME R (rd_client r)"
      "\<And>k' f. f \<noteq> ''tokens'' \<Longrightarrow> f \<noteq> ''lastRefill'' \<Longrightarrow> HGET R s' k' f = HGET R (rd_client r) k' f"
    by (rule tokenBucketScript_exact [OF R q n a'], rule that)
  have v: "f64_to_int (Fin 1) = 1" "f64_to_int (Fin 0) = 0" by (simp_all add: int64_def rat_trunc_def)
  then show thesis
    using w n ok v by (intro that [of s'])
      (simp_all add: RedisLimiter_AllowN_def k_def [symmetric] a_def [symmetric]
        del: f64_to_int.simps split: option.split)
qed

lemma redis_Tokens_exact:
  assumes "redis_ready R r x c rate" "FAULT R (rd_client r) = None"
  shows "RedisLimiter_Tokens R clk x r = (r, Ret (\<lfloor>redis_available R r x c rate\<rfloor>, None))"
proof -
  have q: "lua_limits R (redis_key r x) (f64_of_int (BurstSize (rd_config r))) (TokensPerSecond (rd_config r))
      (rd_client r) = (Fin c, Fin rate)" "limits_ok (Fin c) (Fin rate)"
    "stored_ok c (stored R (redis_key r x) (rd_client r))" "clock_ok R (rd_client r)"
    using assms(1) by (simp_all add: redis_ready_def)
  define a where "a = redis_available R r x c rate"
  have "0 \<le> a" "a \<le> 2 ^ 50"
    using available_bounds [OF q(3,2), of "server_time R (rd_client r)"] q(2)
    by (simp_all add: a_def redis_available_def)
  then have "int64 \<lfloor>a\<rfloor>" by (simp add: int64_def floor_less_iff)
  then show ?thesis
    using getTokensScript_exact [OF q] assms(2) int_of_Fin
    by (simp add: RedisLimiter_Tokens_def a_def redis_available_def)
qed

end
