(* ===== verification/Gateway_Main.thy ===== *)
theory Gateway_Main
  imports Memory_Limiter Proxy Config Redis_Table "HOL-Library.List_Lexorder" "HOL-Library.Char_ord"
begin

text \<open>
  \<open>cmd/api-gateway/main.go\<close>: how the parts are put together, the routes, the health check
  and the life of the process. What the process takes from outside (database driver, Redis,
  Prometheus, the upstream, URL parsing and printing, random bytes) is a record of services.
\<close>

section \<open>Services\<close>

record ('d, 'r, 't, 'm) services =
  sv_version :: string
  sv_sql :: "'d sql_driver"
  sv_redis :: "'r redis_ops"
  sv_connect :: "string \<Rightarrow> redis_config \<Rightarrow> 'r"
  sv_parse_url :: "string \<Rightarrow> go_error + url"
  sv_url_string :: "string \<Rightarrow> string \<Rightarrow> string"
  sv_prom :: "'m prom_ops"
  sv_prom_page :: "'m \<Rightarrow> waction list"
  sv_transport :: "transport_settings \<Rightarrow> 't"
  sv_up :: "'t \<Rightarrow> duration \<Rightarrow> clock \<Rightarrow> out_request \<Rightarrow> proxy_up"
  sv_reencode :: "string \<Rightarrow> string"
  sv_rand :: "clock \<Rightarrow> go_error + string"

datatype log_level = LevelDebug | LevelInfo | LevelWarn | LevelError

definition parseLogLevel :: "string \<Rightarrow> log_level" where
  "parseLogLevel lvl =
     (if ToLower lvl = ''debug'' then LevelDebug
      else if ToLower lvl = ''warn'' then LevelWarn
      else if ToLower lvl = ''error'' then LevelError
      else LevelInfo)"

text \<open>
  The order of \<open>slog\<close>'s levels, by their values, and what the handler \<open>run\<close> installs as the
  default logger lets through of the gateway's log.
\<close>

fun slog_level :: "log_level \<Rightarrow> int" where
  "slog_level LevelDebug = - 4"
| "slog_level LevelInfo = 0"
| "slog_level LevelWarn = 4"
| "slog_level LevelError = 8"

lemma slog_level_inj: "slog_level a = slog_level b \<longleftrightarrow> a = b"
  by (cases a; cases b) simp_all

instantiation log_level :: linorder
begin

definition less_eq_log_level :: "log_level \<Rightarrow> log_level \<Rightarrow> bool" where
  "less_eq_log_level a b \<longleftrightarrow> slog_level a \<le> slog_level b"

definition less_log_level :: "log_level \<Rightarrow> log_level \<Rightarrow> bool" where
  "less_log_level a b \<longleftrightarrow> slog_level a < slog_level b"

instance
  by standard (auto simp: less_eq_log_level_def less_log_level_def slog_level_inj)

end

fun entry_level :: "log_entry \<Rightarrow> log_level" where
  "entry_level (RequestCompleted m p s d a i k u) = LevelInfo"
| "entry_level (LimiterFailure c err) = LevelError"
| "entry_level (LimitFetchFailed k err) = LevelWarn"
| "entry_level (PanicRecovered e p m) = LevelError"

definition log_output :: "config \<Rightarrow> log_entry list \<Rightarrow> log_entry list" where
  "log_output cfg es = filter (\<lambda>e. parseLogLevel (LogLevel cfg) \<le> entry_level e) es"

section \<open>The limiter backend\<close>

text \<open>The value of interface type \<open>ratelimit.Limiter\<close>: one of the two backends.\<close>

datatype 'r backend = MemoryBackend memory_limiter | RedisBackend "'r redis_limiter"

fun on_backend :: "(memory_limiter \<Rightarrow> memory_limiter \<times> 'a) \<Rightarrow> ('r redis_limiter \<Rightarrow> 'r redis_limiter \<times> 'a)
    \<Rightarrow> 'r backend \<Rightarrow> 'r backend \<times> 'a" where
  "on_backend f h (MemoryBackend m) = map_prod MemoryBackend id (f m)"
| "on_backend f h (RedisBackend r) = map_prod RedisBackend id (h r)"

definition backend_ops :: "'r redis_ops \<Rightarrow> 'r backend limiter_ops" where
  "backend_ops R = \<lparr>
     op_Allow = (\<lambda>clk c. on_backend (MemoryLimiter_Allow clk c) (RedisLimiter_Allow R clk c)),
     op_Tokens = (\<lambda>clk c. on_backend (MemoryLimiter_Tokens clk c) (RedisLimiter_Tokens R clk c)),
     op_Reset = (\<lambda>clk c. on_backend (MemoryLimiter_Reset clk c) (RedisLimiter_Reset R clk c)),
     op_SetLimit = (\<lambda>clk c b x. on_backend (MemoryLimiter_SetLimit clk c b x) (RedisLimiter_SetLimit R clk c b x)),
     op_Close = on_backend MemoryLimiter_Close (RedisLimiter_Close R)\<rparr>"

definition redis_settings :: "config \<Rightarrow> redis_config" where
  "redis_settings cfg = \<lparr>redisHost = RedisHost cfg, redisPort = RedisPort cfg, redisPassword = RedisPassword cfg,
     redisDB = RedisDB cfg, redisPoolSize = RedisPoolSize cfg, redisMinIdleConns = RedisMinIdle cfg,
     redisDialTimeout = RedisDialTimeout cfg, redisReadTimeout = RedisReadTimeout cfg,
     redisWriteTimeout = RedisWriteTimeout cfg, redisKeyPrefix = RedisKeyPrefix cfg\<rparr>"

text \<open>The function never returns an error: a Redis that cannot be reached is replaced by memory.\<close>

definition createRateLimiter :: "('d, 'r, 't, 'm) services \<Rightarrow> config \<Rightarrow> go_error + 'r backend" where
  "createRateLimiter sv cfg =
     (let memory = MemoryBackend (NewMemoryLimiter \<lparr>TokensPerSecond = f64_of_int (RateLimitRPS cfg),
            BurstSize = RateLimitBurst cfg, CleanupInterval = RateLimitCleanupInterval cfg\<rparr>)
      in if EqualFold (RateLimitBackend cfg) ''redis''
         then (case NewRedisLimiter (sv_redis sv) (sv_connect sv) (redis_settings cfg)
                   \<lparr>TokensPerSecond = f64_of_int (RateLimitRPS cfg), BurstSize = RateLimitBurst cfg, CleanupInterval = 0\<rparr> of
                 Inl err \<Rightarrow> Inr memory
               | Inr r \<Rightarrow> Inr (RedisBackend r))
         else Inr memory)"

section \<open>The client store\<close>

definition postgres_settings :: "config \<Rightarrow> postgres_config" where
  "postgres_settings cfg = \<lparr>pgHost = DBHost cfg, pgPort = DBPort cfg, pgUser = DBUser cfg, pgPassword = DBPassword cfg,
     pgDatabase = DBName cfg, pgSSLMode = DBSSLMode cfg, pgMaxOpenConns = DBMaxOpenConns cfg,
     pgMaxIdleConns = DBMaxIdleConns cfg, pgConnMaxLifetime = DBConnMaxLifetime cfg,
     pgConnMaxIdleTime = DBConnMaxIdleTime cfg\<rparr>"

text \<open>The interface value \<open>clientStore\<close>: \<open>None\<close> is nil.\<close>

definition open_store :: "('d, 'r, 't, 'm) services \<Rightarrow> config \<Rightarrow> 'd cached_store option" where
  "open_store sv cfg =
     (if DatabaseURL cfg \<noteq> [] \<or> DBHost cfg \<noteq> [] then
        (case NewPostgres (sv_sql sv) (postgres_settings cfg) of
           Inl dbErr \<Rightarrow> None
         | Inr pgStore \<Rightarrow> Some (NewCachedStore pgStore (1 * minute)))
      else None)"

definition store_get :: "'d sql_driver \<Rightarrow> 'd cached_store option get_limit" where
  "store_get drv clk k st =
     (case st of
        None \<Rightarrow> (None, 0, None)
      | Some cs \<Rightarrow>
          let (cs', v, err) = CachedStore_GetClientLimit (Postgres_GetClientLimit drv) clk k cs in (Some cs', v, err))"

text \<open>
  The type assertion on the store: only a type with a method \<open>HealthCheck\<close> passes it. The
  store is always a \<open>*CachedStore\<close>, whose methods are \<open>GetClientLimit\<close>, \<open>Invalidate\<close> and
  \<open>Close\<close>, so it never does, although the Postgres store behind it has the method.
\<close>

definition health_checker :: "'d cached_store \<Rightarrow> ('d cached_store \<Rightarrow> 'd cached_store \<times> go_error option) option" where
  "health_checker cs = None"

section \<open>Handlers of the routes\<close>

text \<open>\<open>json.Encoder\<close> writes the keys of a map in order.\<close>

definition writeJSONResponse :: "int \<Rightarrow> (string \<times> string) list \<Rightarrow> waction list" where
  "writeJSONResponse status payload =
     [SetHeader ''Content-Type'' ''application/json'', WriteHeader status,
      WriteBody (json_object (map (\<lambda>(k, v). json_member k (json_string v)) (sort_key fst payload)))]"

type_synonym ('d, 'r, 'm) app = "('r backend, 'd cached_store option, circuit_breaker, 'm) gateway"

definition healthz :: "('d, 'r, 't, 'm) services \<Rightarrow> ('d, 'r, 'm) app handler" where
  "healthz sv clk r g = (g, writeJSONResponse 200 [(''status'', ''ok''), (''version'', sv_version sv)], Ret ())"

definition readyz :: "('d, 'r, 'm) app handler" where
  "readyz clk r g =
     (let ready = writeJSONResponse 200 [(''status'', ''ready'')] in
      case gw_storage g of
        None \<Rightarrow> (g, ready, Ret ())
      | Some cs \<Rightarrow>
          (case health_checker cs of
             None \<Rightarrow> (g, ready, Ret ())
           | Some check \<Rightarrow>
               (case check cs of
                  (cs', Some err) \<Rightarrow> (g\<lparr>gw_storage := Some cs'\<rparr>,
                      writeJSONResponse 503 [(''status'', ''storage unavailable'')], Ret ())
                | (cs', None) \<Rightarrow> (g\<lparr>gw_storage := Some cs'\<rparr>, ready, Ret ()))))"

definition debug_rate_limit :: "('d, 'r, 't, 'm) services \<Rightarrow> config \<Rightarrow> ('d, 'r, 'm) app handler" where
  "debug_rate_limit sv cfg clk r g =
     (let key = header_get (req_header r) ''X-API-Key'';
          clientID = (if key = [] then remoteAddr r else key)
      in case op_Tokens (backend_ops (sv_redis sv)) clk clientID (gw_limiter g) of
           (l, Panic e) \<Rightarrow> (g\<lparr>gw_limiter := l\<rparr>, [], Panic e)
         | (l, Ret (n, Some err)) \<Rightarrow>
             (g\<lparr>gw_limiter := l\<rparr>, writeJSONResponse 500 [(''error'', err_msg err)], Ret ())
         | (l, Ret (n, None)) \<Rightarrow>
             (g\<lparr>gw_limiter := l\<rparr>,
              writeJSONResponse 200 [(''client_id'', clientID), (''tokens'', Itoa n),
                (''limit'', Itoa (RateLimitBurst cfg))], Ret ()))"

definition prom_page :: "('d, 'r, 't, 'm) services \<Rightarrow> ('d, 'r, 'm) app handler" where
  "prom_page sv clk r g = (g, sv_prom_page sv (gw_metrics g), Ret ())"

definition rate_limit_settings :: "('d, 'r, 't, 'm) services \<Rightarrow> config \<Rightarrow> bool
    \<Rightarrow> ('r backend, 'd cached_store option, 'm) rate_limit_config" where
  "rate_limit_settings sv cfg has_store =
     \<lparr>DefaultLimit = RateLimitRPS cfg, Storage = (if has_store then Some (store_get (sv_sql sv)) else None),
      Limiter = backend_ops (sv_redis sv), rlMetrics = Some (sv_prom sv)\<rparr>"

definition proxy_handler :: "('d, 'r, 't, 'm) services \<Rightarrow> url \<Rightarrow> ('d, 'r, 'm) app handler" where
  "proxy_handler sv target =
     (let (timeout, transport, cb) = NewProxyHandler (sv_transport sv) \<lparr>Target = target, Timeout = 30 * second, Transport = None\<rparr>
      in Proxy_ServeHTTP (sv_reencode sv) (sv_up sv transport) timeout target)"

definition main_handler :: "('d, 'r, 't, 'm) services \<Rightarrow> config \<Rightarrow> url \<Rightarrow> bool \<Rightarrow> ('d, 'r, 'm) app handler" where
  "main_handler sv cfg target has_store =
     Metrics_Middleware (Some (sv_prom sv))
       (RecoveryMiddleware
         (LoggingMiddleware (sv_rand sv)
           (RateLimitMiddleware (rate_limit_settings sv cfg has_store) (proxy_handler sv target))))"

section \<open>The multiplexer\<close>

text \<open>
  \<open>http.ServeMux\<close> with the patterns of \<open>run\<close>: it matches the cleaned path, and where the
  path was not clean it redirects instead; a \<open>CONNECT\<close> is matched as it is. None of the
  patterns but \<open>/\<close> ends in a slash, so they match one path each.
\<close>

fun clean_segments :: "string list \<Rightarrow> string list \<Rightarrow> string list" where
  "clean_segments acc [] = rev acc"
| "clean_segments acc (s # ss) =
     (if s = [] \<or> s = ''.'' then clean_segments acc ss
      else if s = ''..'' then clean_segments (tl acc) ss
      else clean_segments (s # acc) ss)"

definition cleanPath :: "string \<Rightarrow> string" where
  "cleanPath p =
     (if p = [] then ''/''
      else let p' = (if hd p \<noteq> CHR ''/'' then CHR ''/'' # p else p);
               segs = clean_segments [] (SplitSeq (tl p') CHR ''/'');
               np = (if segs = [] then ''/'' else concat (map (\<lambda>s. CHR ''/'' # s) segs))
           in if last p' = CHR ''/'' \<and> np \<noteq> ''/'' then np @ ''/'' else np)"

definition html_escape :: "string \<Rightarrow> string" where
  "html_escape s = concat (map (\<lambda>c. if c = CHR ''&'' then ''&amp;'' else if c = CHR ''<'' then ''&lt;''
     else if c = CHR ''>'' then ''&gt;'' else if c = CHR 0x22 then ''&#34;'' else if c = CHR 0x27 then ''&#39;'' else [c]) s)"

definition http_Redirect :: "http_request \<Rightarrow> string \<Rightarrow> int \<Rightarrow> string \<Rightarrow> waction list" where
  "http_Redirect r location code status_text =
     [SetHeader ''Location'' location]
     @ (if req_method r = ''GET'' \<or> req_method r = ''HEAD''
        then [SetHeader ''Content-Type'' ''text/html; charset=utf-8''] else [])
     @ [WriteHeader code]
     @ (if req_method r = ''GET'' then [WriteBody (''<a href='' @ [CHR 0x22] @ html_escape location @ [CHR 0x22]
          @ ''>'' @ status_text @ ''</a>.'' @ [CHR 0x0A, CHR 0x0A])] else [])"

definition not_found :: "waction list" where
  "not_found = [SetHeader ''Content-Type'' ''text/plain; charset=utf-8'', SetHeader ''X-Content-Type-Options'' ''nosniff'',
     WriteHeader 404, WriteBody (''404 page not found'' @ [CHR 0x0A])]"

definition route_handler :: "('d, 'r, 't, 'm) services \<Rightarrow> config \<Rightarrow> url \<Rightarrow> bool \<Rightarrow> string \<Rightarrow> ('d, 'r, 'm) app handler" where
  "route_handler sv cfg target has_store path =
     (if path = ''/healthz'' then healthz sv
      else if path = ''/readyz'' then readyz
      else if path = ''/metrics'' \<and> MetricsEnabled cfg then prom_page sv
      else if path = ''/debug/rate_limit'' \<and> DebugRateLimit cfg then debug_rate_limit sv cfg
      else main_handler sv cfg target has_store)"

definition gateway_mux :: "('d, 'r, 't, 'm) services \<Rightarrow> config \<Rightarrow> url \<Rightarrow> bool \<Rightarrow> ('d, 'r, 'm) app handler" where
  "gateway_mux sv cfg target has_store clk r g =
     (let path = (if req_method r = ''CONNECT'' then req_path r else cleanPath (req_path r)) in
      if path \<noteq> req_path r
      then (g, http_Redirect r (sv_url_string sv path (req_query r)) 301 ''Moved Permanently'', Ret ())
      else if path = [] then (g, not_found, Ret ())
      else route_handler sv cfg target has_store path clk r g)"

section \<open>The process\<close>

record http_server =
  srv_Addr :: string
  srv_ReadTimeout :: duration
  srv_WriteTimeout :: duration
  srv_IdleTimeout :: duration

definition server_settings :: "config \<Rightarrow> http_server" where
  "server_settings cfg = \<lparr>srv_Addr = CHR '':'' # Itoa (cfgPort cfg), srv_ReadTimeout = ReadTimeout cfg,
     srv_WriteTimeout = WriteTimeout cfg, srv_IdleTimeout = 120 * second\<rparr>"

text \<open>
  The first part of \<open>run\<close>, up to the start of the server: the configuration, the upstream and
  the state the handlers start from, with metrics \<open>m0\<close> just registered.
\<close>

definition run_setup :: "('d, 'r, 't, 'm) services \<Rightarrow> environment \<Rightarrow> 'm
    \<Rightarrow> go_error + (config \<times> url \<times> ('d, 'r, 'm) app)" where
  "run_setup sv env m0 =
     (case Load env of
        Inl err \<Rightarrow> Inl (WrapError ''load config'' err)
      | Inr cfg \<Rightarrow>
          (case sv_parse_url sv (UpstreamURL cfg) of
             Inl err \<Rightarrow> Inl (WrapError ''parse upstream url'' err)
           | Inr targetURL \<Rightarrow>
               let clientStore = open_store sv cfg in
               (case createRateLimiter sv cfg of
                  Inl err \<Rightarrow> Inl (WrapError ''initialize rate limiter'' err)
                | Inr rateLimiter \<Rightarrow>
                    let (timeout, transport, cb) = NewProxyHandler (sv_transport sv)
                          \<lparr>Target = targetURL, Timeout = 30 * second, Transport = None\<rparr>
                    in Inr (cfg, targetURL, \<lparr>gw_limiter = rateLimiter, gw_storage = clientStore, gw_synced = Map.empty,
                         gw_upstream = cb, gw_metrics = m0, gw_log = []\<rparr>))))"

text \<open>The deferred calls, last one first: the limiter, then the cache, then the database.\<close>

definition run_close :: "('d, 'r, 't, 'm) services \<Rightarrow> ('d, 'r, 'm) app \<Rightarrow> ('d, 'r, 'm) app" where
  "run_close sv g =
     (let (l, e1) = op_Close (backend_ops (sv_redis sv)) (gw_limiter g);
          g1 = g\<lparr>gw_limiter := l\<rparr>
      in case gw_storage g1 of
           None \<Rightarrow> g1
         | Some cs \<Rightarrow>
             let (cs', e2) = CachedStore_Close cs;
                 (db, e3) = Postgres_Close (sv_sql sv) (Some (cs_store cs'))
             in g1\<lparr>gw_storage := Some (cs'\<lparr>cs_store := the db\<rparr>)\<rparr>)"

definition ErrServerClosed :: go_error where
  "ErrServerClosed = ErrorString ''http: Server closed''"

text \<open>What the listening goroutine puts on \<open>errChan\<close> when \<open>ListenAndServe\<close> returns.\<close>

definition listen_error :: "go_error option \<Rightarrow> go_error option" where
  "listen_error err =
     (case err of None \<Rightarrow> None
      | Some e \<Rightarrow> if errors_is e ErrServerClosed then None else Some (WrapError ''listen'' e))"

text \<open>What the main goroutine wakes up for.\<close>

datatype wake = SignalReceived "go_error option" | StartupError go_error

text \<open>
  \<open>run\<close>: \<open>serving\<close> is what the handlers have done to the state when the main goroutine wakes
  up; a signal comes with the result of \<open>Shutdown\<close>.
\<close>

definition run :: "('d, 'r, 't, 'm) services \<Rightarrow> environment \<Rightarrow> 'm
    \<Rightarrow> (config \<Rightarrow> url \<Rightarrow> ('d, 'r, 'm) app \<Rightarrow> ('d, 'r, 'm) app) \<Rightarrow> wake \<Rightarrow> ('d, 'r, 'm) app option \<times> go_error option" where
  "run sv env m0 serving w =
     (case run_setup sv env m0 of
        Inl err \<Rightarrow> (None, Some err)
      | Inr (cfg, target, g) \<Rightarrow>
          (Some (run_close sv (serving cfg target g)),
           case w of
             StartupError startupErr \<Rightarrow> Some startupErr
           | SignalReceived (Some err) \<Rightarrow> Some (WrapError ''graceful shutdown'' err)
           | SignalReceived None \<Rightarrow> None))"

definition healthcheck_port :: "environment \<Rightarrow> int" where
  "healthcheck_port env =
     (case env ''PORT'' of
        None \<Rightarrow> 8080
      | Some portStr \<Rightarrow>
          if portStr \<noteq> [] then
            (case Atoi portStr of Some p \<Rightarrow> if 0 < p \<and> p \<le> 65535 then p else 8080 | None \<Rightarrow> 8080)
          else 8080)"

text \<open>\<open>do\<close> is the GET request with its timeout: a response or an error.\<close>

definition runHealthcheck :: "(duration \<Rightarrow> string \<Rightarrow> go_error + http_response) \<Rightarrow> environment \<Rightarrow> int" where
  "runHealthcheck do_get env =
     (let urlHealth = ''http://127.0.0.1:'' @ Itoa (healthcheck_port env) @ ''/healthz'' in
      case do_get (3 * second) urlHealth of
        Inl err \<Rightarrow> 1
      | Inr resp \<Rightarrow> if resp_status resp \<noteq> 200 then 1 else 0)"

definition main_exit :: "bool \<Rightarrow> int \<Rightarrow> go_error option \<Rightarrow> int" where
  "main_exit healthcheckFlag health err =
     (if healthcheckFlag then health else case err of Some e \<Rightarrow> 1 | None \<Rightarrow> 0)"

end
