(* ===== verification/Gateway_Properties.thy ===== *)
theory Gateway_Properties
  imports Gateway_Main
begin

text \<open>
  What the parts give together: the backend behind the interface of the limiter, the handler
  chain of \<open>run\<close> as a whole, the routes, and the life of the process.
\<close>

section \<open>Either backend behind the interface\<close>

fun backend_view :: "'r redis_ops \<Rightarrow> 'r backend \<Rightarrow> string
    \<Rightarrow> token_bucket option + ((f64 option \<times> f64 option) \<times> f64 option \<times> f64 option)" where
  "backend_view R (MemoryBackend m) c = Inl (client_bucket m c)"
| "backend_view R (RedisBackend r) c = Inr (redis_view R r c)"

fun backend_inv :: "'r backend \<Rightarrow> bool" where
  "backend_inv (MemoryBackend m) = mem_inv m"
| "backend_inv (RedisBackend r) = True"

lemma backend_locale:
  assumes "redis_laws R"
  shows "limiter (backend_ops R) (backend_view R) backend_inv redis_indep"
proof
  fix s :: "'a backend" and c d :: string and clk :: clock and b :: int and x :: f64
  note r = redis_limiter_locale [OF assms]
  note red = limiter.allow_other [OF r] limiter.tokens_other [OF r] limiter.reset_other [OF r]
    limiter.set_limit_other [OF r]
  note other = red [simplified redis_limiter_ops_def, simplified] mem.allow_other [simplified memory_ops_def, simplified]
    mem.tokens_other [simplified memory_ops_def, simplified] mem.reset_other [simplified memory_ops_def, simplified]
    mem.set_limit_other [simplified memory_ops_def, simplified]
  note inv = mem.allow_inv [simplified memory_ops_def, simplified] mem.tokens_inv [simplified memory_ops_def, simplified]
    mem.reset_inv [simplified memory_ops_def, simplified] mem.set_limit_inv [simplified memory_ops_def, simplified]
  assume i: "backend_inv s"
  show "backend_inv (fst (op_Allow (backend_ops R) clk c s))" "backend_inv (fst (op_Tokens (backend_ops R) clk c s))"
    "backend_inv (fst (op_Reset (backend_ops R) clk c s))"
    using i inv by (cases s; simp add: backend_ops_def)+
  show "backend_inv (fst (op_SetLimit (backend_ops R) clk c b x s))" if "int64 b" "f64_rep x" "x \<noteq> NaN" "x \<noteq> PInf"
    using i inv that by (cases s; simp add: backend_ops_def)
  assume c: "redis_indep c d"
  then have cd: "c \<noteq> d" by (simp add: redis_indep_def)
  show "backend_view R (fst (op_Allow (backend_ops R) clk c s)) d = backend_view R s d"
    "backend_view R (fst (op_Tokens (backend_ops R) clk c s)) d = backend_view R s d"
    "backend_view R (fst (op_Reset (backend_ops R) clk c s)) d = backend_view R s d"
    using i c cd other by (cases s; simp add: backend_ops_def)+
  show "backend_view R (fst (op_SetLimit (backend_ops R) clk c b x s)) d = backend_view R s d"
    if "int64 b" "f64_rep x" "x \<noteq> NaN" "x \<noteq> PInf"
    using i c cd other that by (cases s; simp add: backend_ops_def)
qed

interpretation gwl: limiter "backend_ops table_redis" "backend_view table_redis" backend_inv redis_indep
  by (rule backend_locale [OF table_redis_laws])

section \<open>The layers of the handler chain\<close>

text \<open>
  What the outer layers leave alone: the limiter, the store and the map of synchronised
  limits are as the layer below left them.
\<close>

definition shared_state :: "('l, 's, 'u, 'm) gateway \<Rightarrow> 'l \<times> 's \<times> (string \<rightharpoonup> int) \<times> 'u" where
  "shared_state g = (gw_limiter g, gw_storage g, gw_synced g, gw_upstream g)"

lemma LoggingMiddleware_frame:
  "shared_state (fst (LoggingMiddleware rand inner clk r g)) = shared_state (fst (inner (from_reading 3 clk) r g))"
  "gw_metrics (fst (LoggingMiddleware rand inner clk r g)) = gw_metrics (fst (inner (from_reading 3 clk) r g))"
  by (auto simp: LoggingMiddleware_def Let_def log_add_def shared_state_def split: prod.split outcome.split)

lemma RecoveryMiddleware_frame:
  "shared_state (fst (RecoveryMiddleware inner clk r g)) = shared_state (fst (inner clk r g))"
  "gw_metrics (fst (RecoveryMiddleware inner clk r g)) = gw_metrics (fst (inner clk r g))"
  "snd (snd (RecoveryMiddleware inner clk r g)) = Ret ()"
  by (auto simp: RecoveryMiddleware_def log_add_def shared_state_def split: prod.split outcome.split)

lemma Metrics_Middleware_frame:
  "shared_state (fst (Metrics_Middleware (Some p) inner clk r g))
    = shared_state (fst (inner (from_reading 2 clk) r (g\<lparr>gw_metrics := ActiveRequests_Add p 1 (gw_metrics g)\<rparr>)))"
  by (auto simp: Metrics_Middleware_def Let_def shared_state_def split: prod.split outcome.split)

definition counted_in :: "'m prom_ops \<Rightarrow> ('l, 's, 'u, 'm) gateway \<Rightarrow> ('l, 's, 'u, 'm) gateway" where
  "counted_in p g = g\<lparr>gw_metrics := ActiveRequests_Add p 1 (gw_metrics g)\<rparr>"

lemma main_handler_state:
  "shared_state (fst (main_handler sv cfg target has_store clk r g)) =
    shared_state (fst (RateLimitMiddleware (rate_limit_settings sv cfg has_store) (proxy_handler sv target)
      (from_reading 3 (from_reading 2 clk)) r (counted_in (sv_prom sv) g)))"
  by (simp add: main_handler_def Metrics_Middleware_frame RecoveryMiddleware_frame LoggingMiddleware_frame counted_in_def)

lemma proxy_handler_frame:
  "gw_limiter (fst (proxy_handler sv target clk r g)) = gw_limiter g"
  "gw_storage (fst (proxy_handler sv target clk r g)) = gw_storage g"
  "gw_synced (fst (proxy_handler sv target clk r g)) = gw_synced g"
  "gw_metrics (fst (proxy_handler sv target clk r g)) = gw_metrics g"
  by (auto simp: proxy_handler_def NewProxyHandler_def Proxy_ServeHTTP_def Let_def
      split: sum.split prod.split rt_return.split option.split)

section \<open>Limits that fit Go's int\<close>

text \<open>\<open>Scan\<close> into an \<open>int\<close> fails on a value that does not fit; the cache keeps what it was given.\<close>

definition driver_int64 :: "'d sql_driver \<Rightarrow> bool" where
  "driver_int64 drv \<longleftrightarrow> (\<forall>k db db' n. sql_query drv k db = (db', Inr n) \<longrightarrow> int64 n)"

fun store_int64 :: "'d cached_store option \<Rightarrow> bool" where
  "store_int64 None = True"
| "store_int64 (Some cs) = (\<forall>k e. cs_cache cs k = Some e \<longrightarrow> int64 (entry_limit e))"

lemma Postgres_int64:
  assumes "driver_int64 drv" "Postgres_GetClientLimit drv clk k db = (db', v, err)"
  shows "int64 v"
proof -
  have "int64 0" by (simp add: int64_def)
  then show ?thesis
    using assms unfolding Postgres_GetClientLimit_def driver_int64_def
    by (auto split: if_splits prod.splits sum.splits)
qed

lemma store_get_int64:
  assumes "driver_int64 drv" "store_int64 st" "store_get drv clk k st = (st', v, err)"
  shows "int64 v" "store_int64 st'"
proof -
  have z: "int64 0" by (simp add: int64_def)
  have "int64 v \<and> store_int64 st'"
  proof (cases st)
    case None
    then show ?thesis using assms(3) z by (auto simp: store_get_def)
  next
    case (Some cs)
    obtain cs' where st': "st' = Some cs'"
      "CachedStore_GetClientLimit (Postgres_GetClientLimit drv) clk k cs = (cs', v, err)"
      using assms(3) Some by (auto simp: store_get_def split: prod.splits)
    have c: "\<And>k e. cs_cache cs k = Some e \<Longrightarrow> int64 (entry_limit e)" using assms(2) Some by simp
    obtain db n e1 where pg: "Postgres_GetClientLimit drv (\<lambda>i. clk (i + 2)) k (cs_store cs) = (db, n, e1)"
      by (metis prod_cases3)
    note n = Postgres_int64 [OF assms(1) pg]
    show ?thesis
      using st' c n z pg
      by (auto simp: CachedStore_GetClientLimit_def cached_lookup_def cached_update_def Let_def
          split: if_splits option.splits)
  qed
  then show "int64 v" "store_int64 st'" by auto
qed

lemma resolve_int64:
  assumes "driver_int64 (sv_sql sv)" "int64 (RateLimitRPS cfg)" "store_int64 (gw_storage g)"
  shows "int64 (snd (resolveClientLimit (rate_limit_settings sv cfg has_store) clk k g))"
    "store_int64 (gw_storage (fst (resolveClientLimit (rate_limit_settings sv cfg has_store) clk k g)))"
proof -
  obtain st v err where get: "store_get (sv_sql sv) clk k (gw_storage g) = (st, v, err)" by (metis prod_cases3)
  note i = store_get_int64 [OF assms(1,3) get]
  show "int64 (snd (resolveClientLimit (rate_limit_settings sv cfg has_store) clk k g))"
    "store_int64 (gw_storage (fst (resolveClientLimit (rate_limit_settings sv cfg has_store) clk k g)))"
    using i assms(2,3)
    by (auto simp: resolveClientLimit_def rate_limit_settings_def get log_add_def Let_def split: option.split)
qed

lemma RateLimit_storage:
  assumes "\<And>clk r g. gw_storage (fst (inner clk r g)) = gw_storage g"
  shows "gw_storage (fst (RateLimitMiddleware cfg inner clk r g))
    = gw_storage (fst (resolveClientLimit cfg clk (header_get (req_header r) APIKeyHeader) g))"
proof -
  let ?c = "resolveClientID r"
  obtain g1 n where lim: "resolveClientLimit cfg clk (header_get (req_header r) APIKeyHeader) g = (g1, n)" by force
  obtain g2 res where sy: "syncLimitIfNeeded (Limiter cfg) (from_reading 8 clk) ?c n (DefaultLimit cfg) g1 = (g2, res)" by force
  have "gw_storage g2 = gw_storage g1" using syncLimitIfNeeded_frame [OF sy] by simp
  then show ?thesis
    using assms by (cases res) (auto simp: RateLimitMiddleware_def Let_def lim sy log_add_def case_prod_beta
        split: option.split outcome.split)
qed

section \<open>A request that is counted\<close>

text \<open>The limiter's layer keeps the counter of requests and the gauge, and with valid labels does not touch them.\<close>

lemma RateLimit_metrics:
  assumes laws: "prom_laws p requests active" and m: "valid_utf8 (req_method r)" and p: "rlMetrics cfg = Some p"
    and inner: "\<And>clk r g. gw_metrics (fst (inner clk r g)) = gw_metrics g"
  shows "requests (gw_metrics (fst (RateLimitMiddleware cfg inner clk r g))) = requests (gw_metrics g)"
    "active (gw_metrics (fst (RateLimitMiddleware cfg inner clk r g))) = active (gw_metrics g)"
proof -
  let ?c = "resolveClientID r"
  obtain g1 n where lim: "resolveClientLimit cfg clk (header_get (req_header r) APIKeyHeader) g = (g1, n)" by force
  obtain g2 res where sy: "syncLimitIfNeeded (Limiter cfg) (from_reading 8 clk) ?c n (DefaultLimit cfg) g1 = (g2, res)" by force
  have m2: "gw_metrics g2 = gw_metrics g" using syncLimitIfNeeded_frame [OF sy] resolveClientLimit_frame [OF lim] by simp
  obtain m' where m': "RateLimitedTotal_Inc p [req_method r, SanitizePath (req_path r)] (gw_metrics g) = Ret m'"
    "requests m' = requests (gw_metrics g)" "active m' = active (gw_metrics g)"
    using prom_lawsD(5) [OF laws m SanitizePath_valid] by metis
  have "gw_metrics (fst (RateLimitMiddleware cfg inner clk r g)) \<in> {gw_metrics g, m'}"
    using m2 m'(1) inner by (cases res) (auto simp: RateLimitMiddleware_def Let_def lim sy log_add_def p case_prod_beta
        split: option.split outcome.split)
  then show "requests (gw_metrics (fst (RateLimitMiddleware cfg inner clk r g))) = requests (gw_metrics g)"
    "active (gw_metrics (fst (RateLimitMiddleware cfg inner clk r g))) = active (gw_metrics g)"
    using m' by auto
qed

section \<open>What the log shows\<close>

text \<open>
  Failures are reported at every level; a configuration that loads names its level, so the
  default branch of \<open>parseLogLevel\<close> is reached by \<open>info\<close> alone; completed requests are
  reported exactly at the two lower levels.
\<close>

lemma log_output_failures:
  "filter (\<lambda>e. entry_level e = LevelError) (log_output cfg es) = filter (\<lambda>e. entry_level e = LevelError) es"
proof -
  have "l \<le> LevelError" for l by (cases l) (simp_all add: less_eq_log_level_def)
  then show ?thesis by (auto simp: log_output_def intro!: filter_cong)
qed

lemma log_level_loaded:
  assumes "Load env = Inr cfg"
  shows "parseLogLevel (LogLevel cfg) = LevelInfo \<longleftrightarrow> ToLower (LogLevel cfg) = ''info''"
  using LoadD(1) [OF assms] by (auto simp: validate_def parseLogLevel_def split: if_splits)

lemma log_output_requests:
  assumes "Load env = Inr cfg"
  shows "log_output cfg (es @ [RequestCompleted m p s d a i k u]) = log_output cfg es
    @ (if ToLower (LogLevel cfg) = ''debug'' \<or> ToLower (LogLevel cfg) = ''info''
       then [RequestCompleted m p s d a i k u] else [])"
  using LoadD(1) [OF assms]
  by (auto simp: log_output_def validate_def parseLogLevel_def less_eq_log_level_def split: if_splits)

section \<open>Clean paths\<close>

definition plain_segment :: "string \<Rightarrow> bool" where
  "plain_segment s \<longleftrightarrow> s \<noteq> [] \<and> s \<noteq> ''.'' \<and> s \<noteq> ''..'' \<and> CHR ''/'' \<notin> set s"

lemma SplitSeq_nonempty [simp]: "SplitSeq s sep \<noteq> []"
  by (induction s) (auto split: list.split)

lemma SplitSeq_append: "sep \<notin> set a \<Longrightarrow> SplitSeq (a @ sep # b) sep = a # SplitSeq b sep"
  by (induction a) auto

lemma SplitSeq_no_sep: "s \<in> set (SplitSeq p sep) \<Longrightarrow> sep \<notin> set s"
proof (induction p arbitrary: s)
  case (Cons c p)
  then show ?case by (cases "SplitSeq p sep") (auto split: if_splits)
qed simp

lemma clean_segments_plain:
  "list_all plain_segment acc \<Longrightarrow> \<forall>s \<in> set ss. CHR ''/'' \<notin> set s \<Longrightarrow> list_all plain_segment (clean_segments acc ss)"
proof (induction acc ss rule: clean_segments.induct)
  case (1 acc)
  then show ?case by (simp add: list_all_iff)
next
  case (2 acc s ss)
  then show ?case by (cases acc) (auto simp: plain_segment_def)
qed

lemma clean_segments_id: "list_all plain_segment ss \<Longrightarrow> clean_segments acc ss = rev acc @ ss"
  by (induction ss arbitrary: acc) (auto simp: plain_segment_def)

lemma clean_segments_slash: "clean_segments acc (ss @ [[]]) = clean_segments acc ss"
  by (induction acc ss rule: clean_segments.induct) auto

lemma SplitSeq_segments:
  "list_all plain_segment (s # ss) \<Longrightarrow>
    SplitSeq (s @ concat (map (\<lambda>s. CHR ''/'' # s) ss)) CHR ''/'' = s # ss
    \<and> SplitSeq (s @ concat (map (\<lambda>s. CHR ''/'' # s) ss) @ ''/'') CHR ''/'' = s # ss @ [[]]"
proof (induction ss arbitrary: s)
  case Nil
  then have "CHR ''/'' \<notin> set s" by (simp add: plain_segment_def)
  then show ?case
    using SplitSeq_single [of "CHR ''/''" s] SplitSeq_append [of "CHR ''/''" s "[]"] by simp
next
  case (Cons t ss)
  then have "plain_segment s" "list_all plain_segment (t # ss)" by simp_all
  then have "CHR ''/'' \<notin> set s" "list_all plain_segment (t # ss)" by (simp_all add: plain_segment_def [of s])
  then show ?case using Cons.IH [of t] SplitSeq_append [of "CHR ''/''" s] by simp
qed

lemma concat_segments_last:
  assumes "list_all plain_segment segs" "segs \<noteq> []"
  shows "last (concat (map (\<lambda>s. CHR ''/'' # s) segs)) \<noteq> CHR ''/''"
proof -
  obtain ss t where segs: "segs = ss @ [t]" using assms(2) by (metis rev_exhaust)
  then have "t \<noteq> []" "CHR ''/'' \<notin> set t" using assms(1) by (auto simp: plain_segment_def)
  then have "last t \<noteq> CHR ''/''" by (metis last_in_set)
  then show ?thesis using \<open>t \<noteq> []\<close> by (simp add: segs)
qed

text \<open>A cleaned path is clean, so a client that follows the redirect is served.\<close>

lemma cleanPath_form:
  "\<exists>segs. list_all plain_segment segs \<and> (cleanPath p = ''/'' \<or> segs \<noteq> [] \<and>
     (cleanPath p = concat (map (\<lambda>s. CHR ''/'' # s) segs) \<or> cleanPath p = concat (map (\<lambda>s. CHR ''/'' # s) segs) @ ''/''))"
proof -
  define segs where "segs = clean_segments [] (SplitSeq (tl (if hd p \<noteq> CHR ''/'' then CHR ''/'' # p else p)) CHR ''/'')"
  have "list_all plain_segment segs"
    unfolding segs_def using SplitSeq_no_sep by (intro clean_segments_plain) auto
  then show ?thesis
    by (intro exI [of _ segs]) (simp add: cleanPath_def Let_def segs_def [symmetric])
qed

lemma cleanPath_idem: "cleanPath (cleanPath p) = cleanPath p"
proof -
  obtain segs where segs: "list_all plain_segment segs" and
    form: "cleanPath p = ''/'' \<or> segs \<noteq> [] \<and>
     (cleanPath p = concat (map (\<lambda>s. CHR ''/'' # s) segs) \<or> cleanPath p = concat (map (\<lambda>s. CHR ''/'' # s) segs) @ ''/'')"
    using cleanPath_form by blast
  show ?thesis
  proof (cases "cleanPath p = ''/''")
    case True
    then show ?thesis by (simp add: cleanPath_def)
  next
    case False
    then obtain s ss where ss: "segs = s # ss" using form by (cases segs) auto
    note sp = conjunct1 [OF SplitSeq_segments [OF segs [unfolded ss]]] conjunct2 [OF SplitSeq_segments [OF segs [unfolded ss]]]
    have cl: "clean_segments [] (s # ss) = s # ss" using clean_segments_id [OF segs [unfolded ss], of "[]"] by simp
    have cl': "clean_segments [] (s # ss @ [[]]) = s # ss" using clean_segments_slash [of "[]" "s # ss"] cl by simp
    have l: "last (CHR ''/'' # s @ concat (map (\<lambda>s. CHR ''/'' # s) ss)) \<noteq> CHR ''/''"
      using concat_segments_last [OF segs] by (simp add: ss)
    have "cleanPath (CHR ''/'' # s @ concat (map (\<lambda>s. CHR ''/'' # s) ss)) = CHR ''/'' # s @ concat (map (\<lambda>s. CHR ''/'' # s) ss)"
      unfolding cleanPath_def Let_def using sp(1) cl l by simp
    moreover have "cleanPath ((CHR ''/'' # s @ concat (map (\<lambda>s. CHR ''/'' # s) ss)) @ ''/'')
        = (CHR ''/'' # s @ concat (map (\<lambda>s. CHR ''/'' # s) ss)) @ ''/''"
      unfolding cleanPath_def Let_def using sp(2) cl' segs by (simp add: ss plain_segment_def)
    ultimately show ?thesis using False form by (auto simp: ss)
  qed
qed

section \<open>Properties\<close>


text \<open>
  C9. Every request is answered and counted: whatever the limiter, the store, the upstream
  and the random source do (panics included), the handler chain returns, the gauge of active
  requests is back at its value, and one request is counted under its method, its sanitised
  path and the last status written.
\<close>

theorem gateway_requests_counted:
  assumes "prom_laws (sv_prom sv) requests active" "valid_utf8 (req_method r)"
  shows "\<exists>g' acts. main_handler sv cfg target has_store clk r g = (g', acts, Ret ())
    \<and> active (gw_metrics g') = active (gw_metrics g)
    \<and> requests (gw_metrics g') = (requests (gw_metrics g))
        ([req_method r, SanitizePath (req_path r), Itoa (last_status 200 acts)] :=
          Suc (requests (gw_metrics g) [req_method r, SanitizePath (req_path r), Itoa (last_status 200 acts)]))"
proof -
  let ?rl = "RateLimitMiddleware (rate_limit_settings sv cfg has_store) (proxy_handler sv target)"
  let ?inner = "RecoveryMiddleware (LoggingMiddleware (sv_rand sv) ?rl)"
  let ?g = "g\<lparr>gw_metrics := ActiveRequests_Add (sv_prom sv) 1 (gw_metrics g)\<rparr>"
  obtain g2 acts where i: "?inner (from_reading 2 clk) r ?g = (g2, acts, Ret ())"
    using RecoveryMiddleware_frame(3) by (metis prod.collapse)
  have p: "rlMetrics (rate_limit_settings sv cfg has_store) = Some (sv_prom sv)" by (simp add: rate_limit_settings_def)
  have "gw_metrics g2 = gw_metrics (fst (?rl (from_reading 3 (from_reading 2 clk)) r ?g))"
    using i RecoveryMiddleware_frame(2) LoggingMiddleware_frame(2) by (metis fst_conv)
  then have "requests (gw_metrics g2) = requests (gw_metrics g)" "active (gw_metrics g2) = active (gw_metrics g) + 1"
    using RateLimit_metrics [where inner = "proxy_handler sv target", OF assms p proxy_handler_frame(4)] prom_lawsD(3,4) [OF assms(1)] by simp_all
  moreover obtain m' where "main_handler sv cfg target has_store clk r g = (g2\<lparr>gw_metrics := m'\<rparr>, acts, Ret ())"
    "active m' = active (gw_metrics g2) - 1"
    "requests m' = (requests (gw_metrics g2))([req_method r, SanitizePath (req_path r), Itoa (last_status 200 acts)] :=
        Suc (requests (gw_metrics g2) [req_method r, SanitizePath (req_path r), Itoa (last_status 200 acts)]))"
    using Metrics_Middleware_counts [where inner = ?inner and clk = clk and g = g, OF assms i] unfolding main_handler_def by blast
  ultimately show ?thesis by (intro exI [of _ "g2\<lparr>gw_metrics := m'\<rparr>"] exI [of _ acts]) simp
qed

text \<open>A gateway in memory: nothing outside answers, to evaluate the chain on.\<close>

definition down_up :: proxy_up where
  "down_up = \<lparr>up_env = \<lparr>base = (\<lambda>a req. (None, Some (ErrorString ''refused''))), wait_end = (\<lambda>a. None)\<rparr>,
     up_meanwhile = (\<lambda>cb. cb), up_ctx_err = None, up_body_end = None, up_switch_err = ErrNotSupported\<rparr>"

definition no_sql :: "unit sql_driver" where
  "no_sql = \<lparr>sql_open = (\<lambda>s. Inl (ErrorString ''down'')), sql_set = (\<lambda>x d. d), sql_ping = (\<lambda>t d. (d, None)),
     sql_query = (\<lambda>k d. (d, Inl ErrNoRows)), sql_exec = (\<lambda>x d. (d, None)), sql_close = (\<lambda>d. (d, None))\<rparr>"

definition demo_services :: "(unit, table_server, unit, table_metrics) services" where
  "demo_services = \<lparr>sv_version = ''dev'', sv_sql = no_sql, sv_redis = table_redis,
     sv_connect = (\<lambda>a c. \<lparr>tbl_time = (100, 0), hashes = (\<lambda>k. Map.empty), deadlines = Map.empty\<rparr>),
     sv_parse_url = (\<lambda>u. Inr \<lparr>url_Scheme = ''http'', url_Host = ''up'', url_Path = [], url_RawQuery = []\<rparr>),
     sv_url_string = (\<lambda>p q. p), sv_prom = table_prom, sv_prom_page = (\<lambda>m. [WriteBody ''metrics'']),
     sv_transport = (\<lambda>t. ()), sv_up = (\<lambda>t d clk out. down_up), sv_reencode = (\<lambda>q. q), sv_rand = (\<lambda>clk. Inr ''x'')\<rparr>"

definition demo_target :: url where
  "demo_target = \<lparr>url_Scheme = ''http'', url_Host = ''up'', url_Path = [], url_RawQuery = []\<rparr>"

definition demo_app :: "limiter_config \<Rightarrow> (unit, table_server, table_metrics) app" where
  "demo_app c = \<lparr>gw_limiter = MemoryBackend (NewMemoryLimiter c), gw_storage = None, gw_synced = Map.empty,
     gw_upstream = NewCircuitBreaker 5 (5 * second), gw_metrics = no_metrics, gw_log = []\<rparr>"


theorem gateway_requests_counted_witness:
  "\<exists>s. tm_requests (gw_metrics (fst (main_handler demo_services (read_env Map.empty) demo_target False (\<lambda>i. 0)
     (get_request ''/x'') (demo_app demo_config)))) [''GET'', SanitizePath ''/x'', s] = 1"
proof -
  have laws: "prom_laws (sv_prom demo_services) tm_requests tm_active"
    using table_prom_laws by (simp add: demo_services_def)
  have r: "req_method (get_request ''/x'') = ''GET''" "req_path (get_request ''/x'') = ''/x''"
    by (simp_all add: get_request_def)
  from gateway_requests_counted [OF laws get_request_method, of "read_env Map.empty" demo_target False "\<lambda>i. 0" "''/x''"
      "demo_app demo_config"] show ?thesis
    by (auto simp: r demo_app_def no_metrics_def)
qed

lemma json_wire:
  assumes "\<not> (100 \<le> c \<and> c \<le> 199)"
  shows "wire_status (wire_of (writeJSONResponse c kvs)) = Some c"
  using wire_headers_status(1) [of "[SetHeader ''Content-Type'' ''application/json'']" c] assms
  by (simp add: writeJSONResponse_def header_only_def)



text \<open>
  C11. The backend that is configured is the backend that runs: after a configuration has
  loaded, the limiter is created without an error, satisfies its invariant (so no request
  panics on a bucket that cannot be built), and has the configured burst and rate. It is
  Redis exactly when the backend's name folds to \<open>redis\<close> and the server answers the ping,
  and a fresh in-memory limiter otherwise.
\<close>

theorem gateway_backend:
  assumes "Load env = Inr cfg"
  shows "\<exists>b. createRateLimiter sv cfg = Inr b \<and> backend_inv b
    \<and> (case b of
         MemoryBackend m \<Rightarrow> BurstSize (mem_config m) = RateLimitBurst cfg
           \<and> TokensPerSecond (mem_config m) = f64_of_int (RateLimitRPS cfg) \<and> client_bucket m = Map.empty
       | RedisBackend r \<Rightarrow> BurstSize (rd_config r) = RateLimitBurst cfg
           \<and> TokensPerSecond (rd_config r) = f64_of_int (RateLimitRPS cfg) \<and> keyPrefix r \<noteq> [])
    \<and> ((\<exists>r. b = RedisBackend r) \<longleftrightarrow> EqualFold (RateLimitBackend cfg) ''redis''
        \<and> PING (sv_redis sv) (5 * second)
            (sv_connect sv (RedisHost cfg @ '':'' @ Itoa (RedisPort cfg)) (redis_settings cfg)) = None)"
proof -
  define mc where "mc = \<lparr>TokensPerSecond = f64_of_int (RateLimitRPS cfg), BurstSize = RateLimitBurst cfg,
    CleanupInterval = RateLimitCleanupInterval cfg\<rparr>"
  have v: "0 < RateLimitRPS cfg" "RateLimitRPS cfg \<le> RateLimitBurst cfg" "int64 (RateLimitRPS cfg)" "int64 (RateLimitBurst cfg)"
    using config_load_valid [OF assms] by auto
  have f: "f64_of_int (RateLimitRPS cfg) = Fin (rnd (of_int (RateLimitRPS cfg)))"
    using v by (intro f64_of_int_int64) (auto simp: int64_def)
  have "(1::rat) \<le> of_int (RateLimitRPS cfg)" using v(1) by simp
  then have pos: "1 \<le> rnd (of_int (RateLimitRPS cfg))" using f64.rd_ge_rep [of 1] by simp
  have ok: "config_ok mc"
    using f64_of_int_ok [OF v(3)] pos v(1,2,4) by (simp add: config_ok_def mc_def f del: f64_rep.simps)
  have m: "mem_inv (NewMemoryLimiter mc)" "client_bucket (NewMemoryLimiter mc) = Map.empty"
    "BurstSize (mem_config (NewMemoryLimiter mc)) = RateLimitBurst cfg"
    "TokensPerSecond (mem_config (NewMemoryLimiter mc)) = f64_of_int (RateLimitRPS cfg)"
    using NewMemoryLimiter_inv [OF ok] by (simp_all add: NewMemoryLimiter_def Let_def mc_def)
  have "\<not> f64_le (f64_of_int (RateLimitRPS cfg)) (Fin 0)" using pos by (simp add: f)
  then show ?thesis
    using m v(1,2) by (auto simp: createRateLimiter_def NewRedisLimiter_def Let_def mc_def [symmetric] redis_settings_def
        split: option.split)
qed

theorem gateway_backend_witness:
  "\<exists>m. createRateLimiter demo_services (read_env Map.empty) = Inr (MemoryBackend m) \<and> mem_inv m"
proof -
  have "\<not> EqualFold (RateLimitBackend (read_env Map.empty)) ''redis''"
    by (simp add: EqualFold_def read_env_def getEnv_def runes_ascii fold_rune_def)
  then show ?thesis
    using gateway_backend [OF Load_default, of demo_services]
    by (auto split: backend.splits) (metis backend.exhaust backend_inv.simps(1))
qed

text \<open>
  The check of the configuration and the choice of the backend compare the name differently:
  with a dotted capital I the name passes as \<open>redis\<close>, and the gateway runs in memory.
\<close>

lemma backend_name_mismatch:
  "ToLower [CHR ''r'', CHR ''e'', CHR ''d'', CHR 0xC4, CHR 0xB0, CHR ''s''] = ''redis''
   \<and> \<not> EqualFold [CHR ''r'', CHR ''e'', CHR ''d'', CHR 0xC4, CHR 0xB0, CHR ''s''] ''redis''"
proof -
  have "runes (encode [114, 101, 100, 304, 115]) = [114, 101, 100, 304, 115]"
    using runes_encode_append [of "[114, 101, 100, 304, 115]" "[]"] by (simp add: scalar_def)
  moreover have "encode [114, 101, 100, 304, 115] = [CHR ''r'', CHR ''e'', CHR ''d'', CHR 0xC4, CHR 0xB0, CHR ''s'']"
    by (simp add: encode_def encode_rune_def char_of_eqI)
  ultimately have r: "runes [CHR ''r'', CHR ''e'', CHR ''d'', CHR 0xC4, CHR 0xB0, CHR ''s''] = [114, 101, 100, 304, 115]"
    by simp
  show ?thesis
    by (simp add: ToLower_def EqualFold_def r lower_rune_def fold_rune_def runes_ascii encode_rune_def char_of_eqI)
qed

text \<open>
  C13. The health check asks the right door: if the configuration loads, the probe goes to
  the port the server listens on, it reports success exactly when the answer has status 200,
  and that is the status the gateway's multiplexer gives to its request.
\<close>

theorem gateway_healthcheck:
  assumes "Load env = Inr cfg"
  shows "srv_Addr (server_settings cfg) = '':'' @ Itoa (healthcheck_port env)
    \<and> (runHealthcheck do_get env = 0 \<longleftrightarrow>
        (\<exists>resp. do_get (3 * second) (''http://127.0.0.1:'' @ Itoa (cfgPort cfg) @ ''/healthz'') = Inr resp
          \<and> resp_status resp = 200))
    \<and> wire_status (wire_of (fst (snd (gateway_mux sv cfg target has_store clk (get_request ''/healthz'') g)))) = Some 200"
proof -
  have "cfgPort cfg = getEnvInt env ''PORT'' 8080" "1 \<le> cfgPort cfg" "cfgPort cfg \<le> 65535"
    using LoadD(5) [OF assms] config_load_valid [OF assms] by auto
  then have "healthcheck_port env = cfgPort cfg"
    by (auto simp: healthcheck_port_def getEnvInt_def split: option.splits if_splits)
  moreover have "wire_status (wire_of (fst (snd (gateway_mux sv cfg target has_store clk (get_request ''/healthz'') g)))) = Some 200"
    by (simp add: gateway_mux_def get_request_def cleanPath_def route_handler_def healthz_def json_wire)
  ultimately show ?thesis
    by (auto simp: server_settings_def runHealthcheck_def split: sum.split)
qed

theorem gateway_healthcheck_witness:
  "runHealthcheck (\<lambda>t u. Inr \<lparr>resp_status = 200, resp_header = Map.empty, resp_body = None\<rparr>) Map.empty = 0
   \<and> srv_Addr (server_settings (read_env Map.empty)) = '':8080''"
proof -
  have p: "healthcheck_port Map.empty = 8080" by (simp add: healthcheck_port_def)
  have "Itoa 8080 = ''8080''" by (simp add: Itoa_def nat_dec.simps digit_def char_of_eqI)
  then show ?thesis
    using gateway_healthcheck [OF Load_default, of "\<lambda>t u. Inr \<lparr>resp_status = 200, resp_header = Map.empty, resp_body = None\<rparr>" demo_services]
    by (simp add: p)
qed



end
