(* ===== verification/Gateway_Admission.thy ===== *)
theory Gateway_Admission
  imports Gateway_Properties
begin

text \<open>
  The limit end to end: what the rate-limiting middleware forwards to the handler behind it,
  with the in-memory backend, over a whole run of requests of many clients. Every request
  charges the client's bucket and then reads its level, which refills it; a reading is the
  same step of the bucket as a request for \<open>2 ^ 53\<close> tokens, which is always refused, so the
  bound on a bucket's calls carries over.
\<close>

section \<open>Runs of requests\<close>

text \<open>A handler that counts the requests of client \<open>c\<close> it receives.\<close>

definition count_forwarded :: "string \<Rightarrow> ('l, 's, int, 'm) gateway handler" where
  "count_forwarded c clk r g =
     (if resolveClientID r = c then g\<lparr>gw_upstream := gw_upstream g + 1\<rparr> else g, [], Ret ())"

fun serve_all :: "'g handler \<Rightarrow> (clock \<times> http_request) list \<Rightarrow> 'g \<Rightarrow> 'g" where
  "serve_all h [] g = g"
| "serve_all h ((clk, r) # reqs) g = serve_all h reqs (fst (h clk r g))"

text \<open>The calls the requests of client \<open>c\<close> make on its bucket.\<close>

fun bucket_calls :: "string \<Rightarrow> (clock \<times> http_request) list \<Rightarrow> (time \<times> int) list" where
  "bucket_calls c [] = []"
| "bucket_calls c ((clk, r) # reqs) =
     (if resolveClientID r = c then [(clk 18, 1), (clk 24, 2 ^ 53)] else []) @ bucket_calls c reqs"

text \<open>A store that keeps giving limits that fit an \<open>int\<close> while \<open>P\<close> holds of it.\<close>

definition store_keeps :: "('s \<Rightarrow> bool) \<Rightarrow> ('l, 's, 'm) rate_limit_config \<Rightarrow> bool" where
  "store_keeps P cfg \<longleftrightarrow> int64 (DefaultLimit cfg)
     \<and> (case Storage cfg of None \<Rightarrow> True
        | Some get \<Rightarrow> \<forall>clk k s s' v err. P s \<longrightarrow> get clk k s = (s', v, err) \<longrightarrow> int64 v \<and> P s')"

text \<open>A request that is judged by the default limit.\<close>

definition default_limited :: "('l, 's, 'm) rate_limit_config \<Rightarrow> http_request \<Rightarrow> bool" where
  "default_limited cfg r \<longleftrightarrow> Storage cfg = None \<or> header_get (req_header r) APIKeyHeader = []"

section \<open>One request\<close>

lemma Tokens_as_AllowN:
  assumes "tb_inv tb" "exact_capacity tb"
  shows "TokenBucket_AllowN now (2 ^ 53) tb = (False, snd (TokenBucket_Tokens now tb))"
  using refilled_less [OF assms, of now] refill_valid [OF assms(1), of now]
    AllowN_valid [OF assms, of "2 ^ 53" now]
  by (simp add: TokenBucket_Tokens_def Let_def int64_def)

lemma AllowN_keeps:
  assumes "tb_inv tb" "exact_capacity tb" "int64 n"
  shows "tb_inv (snd (TokenBucket_AllowN now n tb))" "exact_capacity (snd (TokenBucket_AllowN now n tb))"
  using AllowN_step [OF assms, of now "fst (TokenBucket_AllowN now n tb)" "snd (TokenBucket_AllowN now n tb)"] by simp_all

definition first_bucket :: "memory_limiter \<Rightarrow> string \<Rightarrow> time \<Rightarrow> token_bucket outcome" where
  "first_bucket m c t = (case client_bucket m c of Some tb \<Rightarrow> Ret tb
     | None \<Rightarrow> NewTokenBucket t (BurstSize (mem_config m)) (TokensPerSecond (mem_config m)))"

lemma own_request:
  fixes cfg :: "(memory_limiter, 's, 'm) rate_limit_config" and c :: string
  defines "h \<equiv> RateLimitMiddleware cfg (count_forwarded c)"
  assumes cfg: "Limiter cfg = memory_ops" and dflt: "default_limited cfg r" and c: "resolveClientID r = c"
    and inv: "mem_inv (gw_limiter g)" and tb: "first_bucket (gw_limiter g) c (clk 16) = Ret tb"
    and ex: "tb_inv tb" "exact_capacity tb"
    and run: "tb_run [(clk 18, 1), (clk 24, 2 ^ 53)] tb = (n, tb')"
  shows "mem_inv (gw_limiter (fst (h clk r g)))" "client_bucket (gw_limiter (fst (h clk r g))) c = Some tb'"
    "gw_upstream (fst (h clk r g)) = gw_upstream g + n" "gw_storage (fst (h clk r g)) = gw_storage g"
    "tb_inv tb'" "exact_capacity tb'"
proof -
  have one: "int64 1" "int64 (2 ^ 53)" by (simp_all add: int64_def)
  obtain ok tb1 where al: "TokenBucket_AllowN (clk 18) 1 tb = (ok, tb1)" by force
  have tb1: "tb_inv tb1" "exact_capacity tb1" using AllowN_keeps [OF ex one(1), of "clk 18"] al by simp_all
  note tk = Tokens_as_AllowN [OF tb1, of "clk 24"]
  have n: "n = (if ok then 1 else 0)" "tb' = snd (TokenBucket_Tokens (clk 24) tb1)"
    using run al tk by (auto simp: Let_def)
  show "tb_inv tb'" "exact_capacity tb'" using AllowN_keeps [OF tb1 one(2), of "clk 24"] tk n(2) by simp_all
  obtain l res where l: "MemoryLimiter_AllowN (from_reading 16 clk) c 1 (gw_limiter g) = (l, res)" by force
  have rd: "from_reading 16 clk 0 = clk 16" "from_reading 16 clk 2 = clk 18" "from_reading 24 clk 0 = clk 24"
    by (simp_all add: from_reading_def)
  have r1: "mem_inv l" "client_bucket l c = Some tb1" "res = Ret (ok, None)"
    using AllowN_refines [OF inv one(1), of "from_reading 16 clk" c] l al
      tb [unfolded first_bucket_def, folded rd(1)] by (simp_all add: spec_AllowN_def rd(2))
  obtain l' res' where l': "MemoryLimiter_Tokens (from_reading 24 clk) c l = (l', res')" by force
  have r2: "mem_inv l'" "client_bucket l' c = Some tb'" "\<exists>k. res' = Ret (k, None)"
    using Tokens_refines [OF r1(1), of "from_reading 24 clk" c] l' r1(2) n(2)
    by (auto simp: spec_Tokens_def rd split: prod.splits)
  have lim: "resolveClientLimit cfg clk (header_get (req_header r) APIKeyHeader) g = (g, DefaultLimit cfg)"
    using dflt by (auto simp: resolveClientLimit_def default_limited_def split: option.split)
  have ops: "op_Allow (Limiter cfg) (from_reading 16 clk) c (gw_limiter g) = (l, Ret (ok, None))"
    "op_Tokens (Limiter cfg) (from_reading 24 clk) c l = (l', res')"
    using l l' r1(3) by (simp_all add: cfg memory_ops_def MemoryLimiter_Allow_def)
  have "gw_limiter (fst (h clk r g)) = l' \<and> gw_upstream (fst (h clk r g)) = gw_upstream g + n
      \<and> gw_storage (fst (h clk r g)) = gw_storage g"
    using r2(3) by (auto simp: h_def RateLimitMiddleware_def Let_def c lim syncLimitIfNeeded_def ops n(1) count_forwarded_def
        split: option.split outcome.split)
  then show "mem_inv (gw_limiter (fst (h clk r g)))" "client_bucket (gw_limiter (fst (h clk r g))) c = Some tb'"
    "gw_upstream (fst (h clk r g)) = gw_upstream g + n" "gw_storage (fst (h clk r g)) = gw_storage g"
    using r2 by simp_all
qed

text \<open>Requests of other clients: the limiter's interface, with the configuration in view.\<close>

lemma memory_ops_config:
  assumes "mem_inv m"
  shows "mem_config (fst (op_Allow memory_ops clk c m)) = mem_config m"
    "mem_config (fst (op_Tokens memory_ops clk c m)) = mem_config m"
    "mem_config (fst (op_Reset memory_ops clk c m)) = mem_config m"
    "int64 b \<Longrightarrow> f64_rep x \<Longrightarrow> x \<noteq> NaN \<Longrightarrow> x \<noteq> PInf \<Longrightarrow>
      mem_config (fst (op_SetLimit memory_ops clk c b x m)) = mem_config m"
  using AllowN_refines [OF assms, of 1 clk c] Tokens_refines [OF assms, of clk c] SetLimit_refines [OF assms, of b x clk c]
  by (simp_all add: memory_ops_def MemoryLimiter_Allow_def MemoryLimiter_Reset_def int64_def)

interpretation memc: limiter memory_ops "\<lambda>m c. (client_bucket m c, mem_config m)" mem_inv "(\<noteq>)"
  by unfold_locales (simp_all add: memory_ops_config mem.allow_other mem.tokens_other mem.reset_other
      mem.set_limit_other mem.allow_inv mem.tokens_inv mem.reset_inv mem.set_limit_inv)

lemma RateLimit_upstream:
  assumes "\<And>clk g. gw_upstream (fst (inner clk r g)) = gw_upstream g"
  shows "gw_upstream (fst (RateLimitMiddleware cfg inner clk r g)) = gw_upstream g"
proof -
  let ?c = "resolveClientID r"
  obtain g1 n where lim: "resolveClientLimit cfg clk (header_get (req_header r) APIKeyHeader) g = (g1, n)" by force
  obtain g2 res where sy: "syncLimitIfNeeded (Limiter cfg) (from_reading 8 clk) ?c n (DefaultLimit cfg) g1 = (g2, res)" by force
  have "gw_upstream g2 = gw_upstream g" using syncLimitIfNeeded_frame [OF sy] resolveClientLimit_frame [OF lim] by simp
  then show ?thesis
    using assms by (cases res) (auto simp: RateLimitMiddleware_def Let_def lim sy log_add_def case_prod_beta
        split: option.split outcome.split)
qed

lemma resolve_keeps:
  assumes "store_keeps P cfg" "P (gw_storage g)"
  shows "int64 (snd (resolveClientLimit cfg clk k g))" "P (gw_storage (fst (resolveClientLimit cfg clk k g)))"
proof -
  have i: "int64 (DefaultLimit cfg)" using assms(1) by (simp add: store_keeps_def)
  have "int64 (snd (resolveClientLimit cfg clk k g)) \<and> P (gw_storage (fst (resolveClientLimit cfg clk k g)))"
  proof (cases "Storage cfg")
    case None
    then show ?thesis using i assms(2) by (simp add: resolveClientLimit_def)
  next
    case (Some get)
    obtain st v err where get: "get clk k (gw_storage g) = (st, v, err)" by (metis prod_cases3)
    then have "int64 v" "P st" using assms Some unfolding store_keeps_def by (simp, blast)+
    then show ?thesis using i assms(2)
      by (simp add: resolveClientLimit_def Some get log_add_def Let_def split: option.split)
  qed
  then show "int64 (snd (resolveClientLimit cfg clk k g))" "P (gw_storage (fst (resolveClientLimit cfg clk k g)))" by auto
qed

lemma count_forwarded_frame:
  "keeps_limiter (count_forwarded c)" "gw_storage (fst (count_forwarded c clk r g)) = gw_storage g"
  "resolveClientID r \<noteq> c \<Longrightarrow> gw_upstream (fst (count_forwarded c clk r g)) = gw_upstream g"
  by (simp_all add: keeps_limiter_def count_forwarded_def)

lemma other_request:
  fixes cfg :: "(memory_limiter, 's, 'm) rate_limit_config" and c :: string
  defines "h \<equiv> RateLimitMiddleware cfg (count_forwarded c)"
  assumes cfg: "Limiter cfg = memory_ops" "store_keeps P cfg" and c: "resolveClientID r \<noteq> c"
    and inv: "mem_inv (gw_limiter g)" "P (gw_storage g)"
  shows "mem_inv (gw_limiter (fst (h clk r g)))" "P (gw_storage (fst (h clk r g)))"
    "first_bucket (gw_limiter (fst (h clk r g))) c t = first_bucket (gw_limiter g) c t"
    "client_bucket (gw_limiter (fst (h clk r g))) c = client_bucket (gw_limiter g) c"
    "mem_config (gw_limiter (fst (h clk r g))) = mem_config (gw_limiter g)"
    "gw_upstream (fst (h clk r g)) = gw_upstream g"
proof -
  note n = resolve_keeps [OF cfg(2) inv(2)]
  note o = memc.rate_limit_other [OF cfg(1) count_forwarded_frame(1) inv(1) n(1)]
  have v: "client_bucket (gw_limiter (fst (h clk r g))) c = client_bucket (gw_limiter g) c"
    "mem_config (gw_limiter (fst (h clk r g))) = mem_config (gw_limiter g)"
    using o c by (simp_all add: h_def)
  show "mem_inv (gw_limiter (fst (h clk r g)))" using o by (simp add: h_def)
  show "P (gw_storage (fst (h clk r g)))" using n(2) by (simp add: h_def RateLimit_storage count_forwarded_frame)
  show "first_bucket (gw_limiter (fst (h clk r g))) c t = first_bucket (gw_limiter g) c t"
    by (simp only: first_bucket_def v)
  show "gw_upstream (fst (h clk r g)) = gw_upstream g"
    unfolding h_def by (rule RateLimit_upstream [where inner = "count_forwarded c", OF count_forwarded_frame(3) [OF c]])
  show "client_bucket (gw_limiter (fst (h clk r g))) c = client_bucket (gw_limiter g) c"
    "mem_config (gw_limiter (fst (h clk r g))) = mem_config (gw_limiter g)" using v by simp_all
qed

section \<open>A run\<close>

lemma tb_run_append:
  "tb_run (xs @ ys) tb = (let (n, tb1) = tb_run xs tb; (k, tb2) = tb_run ys tb1 in (n + k, tb2))"
  by (induction xs arbitrary: tb rule: list.induct) (auto simp: Let_def split: prod.splits)

lemma bucket_calls_run:
  assumes "resolveClientID r = c" "tb_run [(clk 18, 1), (clk 24, 2 ^ 53)] tb = (n, tb')"
  shows "fst (tb_run (bucket_calls c ((clk, r) # reqs)) tb) = n + fst (tb_run (bucket_calls c reqs) tb')"
  unfolding bucket_calls.simps assms(1) tb_run_append by (simp only: refl if_True assms(2) Let_def prod.case)
    (simp split: prod.split)

text \<open>With a bucket in place, what is forwarded is what the bucket grants.\<close>

lemma serve_own:
  fixes cfg :: "(memory_limiter, 's, 'm) rate_limit_config" and c :: string
  assumes "Limiter cfg = memory_ops" "store_keeps P cfg"
    and "mem_inv (gw_limiter g)" "P (gw_storage g)" "client_bucket (gw_limiter g) c = Some tb" "exact_capacity tb"
    and "\<forall>(clk, r) \<in> set reqs. resolveClientID r = c \<longrightarrow> default_limited cfg r"
  shows "gw_upstream (serve_all (RateLimitMiddleware cfg (count_forwarded c)) reqs g)
    = gw_upstream g + fst (tb_run (bucket_calls c reqs) tb)"
  using assms(3-)
proof (induction reqs arbitrary: g tb)
  case (Cons q reqs)
  obtain clk r where q: "q = (clk, r)" by force
  let ?g = "fst (RateLimitMiddleware cfg (count_forwarded c) clk r g)"
  have rest: "\<forall>(clk, r) \<in> set reqs. resolveClientID r = c \<longrightarrow> default_limited cfg r" using Cons.prems(5) by simp
  have ti: "tb_inv tb" using client_bucket_inv [OF Cons.prems(1,3)] .
  show ?case
  proof (cases "resolveClientID r = c")
    case True
    obtain n tb' where run: "tb_run [(clk 18, 1), (clk 24, 2 ^ 53)] tb = (n, tb')" by force
    have d: "default_limited cfg r" using Cons.prems(5) True by (simp add: q)
    have fb: "first_bucket (gw_limiter g) c (clk 16) = Ret tb" using Cons.prems(3) by (simp add: first_bucket_def)
    note o = own_request [OF assms(1) d True Cons.prems(1) fb ti Cons.prems(4) run]
    have "P (gw_storage ?g)" using o(4) Cons.prems(2) by simp
    note IH = Cons.IH [OF o(1) this o(2) o(6) rest]
    show ?thesis
      using IH o(3) bucket_calls_run [OF True run, of reqs] by (simp add: q del: tb_run.simps bucket_calls.simps)
  next
    case False
    note o = other_request [OF assms(1,2) False Cons.prems(1,2)]
    have "client_bucket (gw_limiter ?g) c = Some tb" using o(4) Cons.prems(3) by simp
    note IH = Cons.IH [OF o(1,2) this Cons.prems(4) rest]
    show ?thesis using IH o(6) False by (simp add: q)
  qed
qed simp

text \<open>A client that comes for the first time gets the configured bucket.\<close>

lemma serve_first:
  fixes cfg :: "(memory_limiter, 's, 'm) rate_limit_config" and c :: string
  assumes "Limiter cfg = memory_ops" "store_keeps P cfg"
    and "mem_inv (gw_limiter g)" "P (gw_storage g)" "client_bucket (gw_limiter g) c = None"
    and "mem_config (gw_limiter g) = lc" "BurstSize lc < 2 ^ 53"
    and "\<forall>(clk, r) \<in> set reqs. resolveClientID r = c \<longrightarrow> default_limited cfg r"
  shows "gw_upstream (serve_all (RateLimitMiddleware cfg (count_forwarded c)) reqs g) = gw_upstream g \<or>
    (\<exists>clk r tb. (clk, r) \<in> set reqs \<and> resolveClientID r = c
      \<and> NewTokenBucket (clk 16) (BurstSize lc) (TokensPerSecond lc) = Ret tb
      \<and> gw_upstream (serve_all (RateLimitMiddleware cfg (count_forwarded c)) reqs g)
          = gw_upstream g + fst (tb_run (bucket_calls c reqs) tb))"
  using assms(3-)
proof (induction reqs arbitrary: g)
  case (Cons q reqs)
  obtain clk r where q: "q = (clk, r)" by force
  let ?g = "fst (RateLimitMiddleware cfg (count_forwarded c) clk r g)"
  have rest: "\<forall>(clk, r) \<in> set reqs. resolveClientID r = c \<longrightarrow> default_limited cfg r" using Cons.prems(6) by simp
  show ?case
  proof (cases "resolveClientID r = c")
    case True
    have ok: "config_ok lc" using mem_invD(1) [OF Cons.prems(1)] Cons.prems(4) by simp
    obtain tb where tb: "NewTokenBucket (clk 16) (BurstSize lc) (TokensPerSecond lc) = Ret tb" "tb_inv tb"
      using config_ok_new [OF ok] by blast
    have "exact_capacity tb" using NewTokenBucket_level(1) [OF tb(1) _ assms(7)] ok by (simp add: config_ok_def)
    obtain n tb' where run: "tb_run [(clk 18, 1), (clk 24, 2 ^ 53)] tb = (n, tb')" by force
    have d: "default_limited cfg r" using Cons.prems(6) True by (simp add: q)
    have fb: "first_bucket (gw_limiter g) c (clk 16) = Ret tb" using Cons.prems(3,4) tb by (simp add: first_bucket_def)
    note o = own_request [OF assms(1) d True Cons.prems(1) fb tb(2) \<open>exact_capacity tb\<close> run]
    have "P (gw_storage ?g)" using o(4) Cons.prems(2) by simp
    note s = serve_own [OF assms(1,2) o(1) this o(2) o(6) rest]
    have "gw_upstream (serve_all (RateLimitMiddleware cfg (count_forwarded c)) (q # reqs) g)
        = gw_upstream g + fst (tb_run (bucket_calls c (q # reqs)) tb)"
      using s o(3) bucket_calls_run [OF True run, of reqs] by (simp add: q del: tb_run.simps bucket_calls.simps)
    then show ?thesis using tb(1) True by (auto simp: q)
  next
    case False
    note o = other_request [OF assms(1,2) False Cons.prems(1,2)]
    have "client_bucket (gw_limiter ?g) c = None" "mem_config (gw_limiter ?g) = lc" using o(4,5) Cons.prems(3,4) by simp_all
    note IH = Cons.IH [OF o(1,2) this assms(7) rest]
    then show ?thesis using o(6) False by (auto simp: q)
  qed
qed simp

section \<open>Properties\<close>

lemma bucket_calls_times:
  assumes "\<forall>(clk, r) \<in> set reqs. resolveClientID r = c \<longrightarrow> clk 18 \<le> T \<and> clk 24 \<le> T"
  shows "\<forall>(now, n) \<in> set (bucket_calls c reqs). now \<le> T \<and> int64 n"
  using assms by (induction c reqs rule: bucket_calls.induct) (auto simp: int64_def)

definition requests_of :: "string \<Rightarrow> (clock \<times> http_request) list \<Rightarrow> nat" where
  "requests_of c reqs = length (filter (\<lambda>(clk, r). resolveClientID r = c) reqs)"

lemma bucket_calls_length: "length (bucket_calls c reqs) = 2 * requests_of c reqs"
  by (induction c reqs rule: bucket_calls.induct) (auto simp: requests_of_def)


definition demo_limited :: "(memory_limiter, unit, table_metrics) rate_limit_config" where
  "demo_limited = \<lparr>DefaultLimit = 2, Storage = None, Limiter = memory_ops, rlMetrics = None\<rparr>"

definition demo_gateway :: "(memory_limiter, unit, int, table_metrics) gateway" where
  "demo_gateway = \<lparr>gw_limiter = NewMemoryLimiter demo_config, gw_storage = (), gw_synced = Map.empty,
     gw_upstream = 0, gw_metrics = no_metrics, gw_log = []\<rparr>"


end
