(* ===== verification/Redis_Admission.thy ===== *)
theory Redis_Admission
  imports Redis_Table
begin

text \<open>
  The limit the Redis backend enforces on one client over time: runs of calls, of other
  activity on the server, of faults on the way and of the expiry of the client's key, and
  the bound on what all calls together are granted.
\<close>

section \<open>Runs\<close>

text \<open>
  What else may happen on the server between two calls for a client: time passes, other keys
  change, and the client's key vanishes once its time to live is over.
\<close>

fun key_expired :: "rat \<Rightarrow> rat \<Rightarrow> int \<Rightarrow> f64 option \<times> f64 option \<Rightarrow> bool" where
  "key_expired c rate now (Some t, Some (Fin l)) =
     (case lua_ttl (Fin c) (Fin rate) of Fin ttl \<Rightarrow> \<lfloor>l\<rfloor> + 1000 * \<lfloor>ttl\<rfloor> \<le> now | _ \<Rightarrow> False)"
| "key_expired c rate now st = (fst st = None)"

definition server_step :: "'r redis_ops \<Rightarrow> string \<Rightarrow> rat \<Rightarrow> rat \<Rightarrow> 'r \<Rightarrow> 'r \<Rightarrow> bool" where
  "server_step R k c rate s s' \<longleftrightarrow>
     clock_ok R s' \<and> server_time R s \<le> server_time R s'
     \<and> HGET R s' (k @ '':cfg'') ''burst'' = HGET R s (k @ '':cfg'') ''burst''
     \<and> HGET R s' (k @ '':cfg'') ''rps'' = HGET R s (k @ '':cfg'') ''rps''
     \<and> (stored R k s' = stored R k s
        \<or> stored R k s' = (None, None) \<and> key_expired c rate (server_time R s') (stored R k s))"

inductive redis_run :: "'r redis_ops \<Rightarrow> string \<Rightarrow> rat \<Rightarrow> rat \<Rightarrow> 'r redis_limiter
    \<Rightarrow> int \<Rightarrow> nat \<Rightarrow> 'r redis_limiter \<Rightarrow> bool"
  for R x c rate r0 where
  start: "redis_run R x c rate r0 0 0 r0"
| call: "redis_run R x c rate r0 granted calls r \<Longrightarrow> int64 n \<Longrightarrow>
    RedisLimiter_AllowN R x n r = (r', Ret (ok, err)) \<Longrightarrow>
    redis_run R x c rate r0 (granted + (if ok then max n 0 else 0)) (Suc calls) r'"
| elapse: "redis_run R x c rate r0 granted calls r \<Longrightarrow>
    server_step R (redis_key r x) c rate (rd_client r) s' \<Longrightarrow>
    redis_run R x c rate r0 granted calls (r\<lparr>rd_client := s'\<rparr>)"

section \<open>The credit of a client\<close>

text \<open>
  The level a client has stored together with what the rate has yielded since, not clamped. It
  never grows faster than the rate, neither by a call nor by the expiry of the key.
\<close>

definition ms_gain :: "rat \<Rightarrow> int \<Rightarrow> int \<Rightarrow> rat" where
  "ms_gain rate t0 t1 = rate * (of_int (t1 - t0) / 1000) * (1 + 1 / 2 ^ 50)"

lemma ms_gain_trans: "ms_gain rate t0 t1 + ms_gain rate t1 t2 = ms_gain rate t0 t2"
  by (simp add: ms_gain_def field_simps)

lemma ms_gain_refl [simp]: "ms_gain rate t t = 0"
  by (simp add: ms_gain_def)

lemma ms_gain_nonneg: "0 \<le> rate \<Longrightarrow> t0 \<le> t1 \<Longrightarrow> 0 \<le> ms_gain rate t0 t1"
  unfolding ms_gain_def by (intro mult_nonneg_nonneg divide_nonneg_nonneg) auto

fun credit :: "rat \<Rightarrow> rat \<Rightarrow> int \<Rightarrow> f64 option \<times> f64 option \<Rightarrow> rat" where
  "credit c rate now (Some (Fin t), Some (Fin l)) = t + ms_gain rate \<lfloor>l\<rfloor> now"
| "credit c rate now st = c"

fun not_ahead :: "int \<Rightarrow> f64 option \<times> f64 option \<Rightarrow> bool" where
  "not_ahead now (Some t, Some (Fin l)) = (\<lfloor>l\<rfloor> \<le> now)"
| "not_ahead now st = True"

lemma stored_ok_cases:
  assumes "stored_ok c st"
  obtains l where "st = (None, l)"
  | t l where "st = (Some (Fin t), Some (Fin (of_int l)))" "0 \<le> t" "t \<le> c" "rnd t = t" "0 \<le> l" "l \<le> 2 ^ 51"
proof (cases "(c, st)" rule: stored_ok.cases)
  case (1 c' l)
  then show thesis using that(1) by simp
next
  case (2 c' t l)
  then have "0 \<le> t" "t \<le> c" "rnd t = t" "l = of_int \<lfloor>l\<rfloor>" "0 \<le> \<lfloor>l\<rfloor>" "\<lfloor>l\<rfloor> \<le> 2 ^ 51" "st = (Some (Fin t), Some (Fin l))"
    using assms by auto
  then show thesis using that(2) [of t "\<lfloor>l\<rfloor>"] by metis
qed (use assms in auto)

lemma credit_nonneg: "stored_ok c st \<Longrightarrow> limits_ok (Fin c) (Fin rate) \<Longrightarrow> not_ahead now st \<Longrightarrow> 0 \<le> credit c rate now st"
  by (erule stored_ok_cases) (simp_all add: ms_gain_nonneg)

lemma credit_later:
  assumes "stored_ok c st" "limits_ok (Fin c) (Fin rate)" "now \<le> now'"
  shows "credit c rate now' st \<le> credit c rate now st + ms_gain rate now now'"
  using assms ms_gain_nonneg [of rate now now'] ms_gain_trans [of rate _ now now']
  by (elim stored_ok_cases) (simp_all add: add.assoc)

lemma available_credit:
  assumes "stored_ok c st" "limits_ok (Fin c) (Fin rate)" "not_ahead now st"
  shows "available c rate now st \<le> credit c rate now st + c / 2 ^ 52"
  using assms(1)
proof (cases rule: stored_ok_cases)
  case (2 t l)
  then show ?thesis
    using lua_level_upper [of t c rate "now - l"] assms(2,3) by (simp add: ms_gain_def)
qed (use assms(2) in simp)

lemma expired_credit:
  assumes st: "stored_ok c st" and ok: "limits_ok (Fin c) (Fin rate)" and ex: "key_expired c rate now st"
  shows "c \<le> credit c rate now st"
  using st
proof (cases rule: stored_ok_cases)
  case (2 t l)
  obtain ttl where ttl: "lua_ttl (Fin c) (Fin rate) = Fin (of_int ttl)" "0 < ttl" "c \<le> rate * of_int ttl"
    using lua_ttl_exact [OF ok] by blast
  have r: "0 \<le> rate" using ok by simp
  have "1000 * ttl \<le> now - l" using ex 2 ttl by simp
  then have "(of_int (1000 * ttl) :: rat) \<le> of_int (now - l)" by (simp only: of_int_le_iff)
  then have d: "of_int ttl \<le> (of_int (now - l) / 1000 :: rat)" by simp
  have "c \<le> rate * (of_int (now - l) / 1000)" using ttl(3) mult_left_mono [OF d r] by linarith
  also have "\<dots> \<le> ms_gain rate l now"
  proof -
    have "0 \<le> of_int (now - l) / (1000 :: rat)" using d ttl(2) by (meson of_int_0_le_iff order_less_imp_le order_trans)
    then show ?thesis unfolding ms_gain_def using r by (simp add: mult_nonneg_nonneg)
  qed
  finally show ?thesis using 2 by simp
qed simp

section \<open>The bound\<close>

definition redis_credit :: "'r redis_ops \<Rightarrow> 'r redis_limiter \<Rightarrow> string \<Rightarrow> rat \<Rightarrow> rat \<Rightarrow> rat" where
  "redis_credit R r x c rate = credit c rate (server_time R (rd_client r)) (stored R (redis_key r x) (rd_client r))"

definition redis_now :: "'r redis_ops \<Rightarrow> 'r redis_limiter \<Rightarrow> int" where
  "redis_now R r = server_time R (rd_client r)"

definition redis_inv :: "'r redis_ops \<Rightarrow> 'r redis_limiter \<Rightarrow> string \<Rightarrow> rat \<Rightarrow> rat \<Rightarrow> bool" where
  "redis_inv R r x c rate \<longleftrightarrow>
     redis_ready R r x c rate \<and> not_ahead (redis_now R r) (stored R (redis_key r x) (rd_client r))"

lemma redis_limits_cong:
  assumes "HGET R s' (k @ '':cfg'') ''burst'' = HGET R s (k @ '':cfg'') ''burst''"
    and "HGET R s' (k @ '':cfg'') ''rps'' = HGET R s (k @ '':cfg'') ''rps''"
  shows "lua_limits R k dc dr s' = lua_limits R k dc dr s"
  using assms by (simp add: lua_limits_def)

text \<open>A call takes what it grants from the credit, up to one rounding.\<close>

lemma redis_call_step:
  assumes R: "redis_laws R" and inv: "redis_inv R r x c rate" and n: "int64 n"
    and step: "RedisLimiter_AllowN R x n r = (r', Ret (ok, err))"
  shows "redis_inv R r' x c rate" "redis_now R r' = redis_now R r" "redis_key r' x = redis_key r x"
    "of_int (if ok then max n 0 else 0) + redis_credit R r' x c rate \<le> redis_credit R r x c rate + c / 2 ^ 52"
proof -
  have rdy: "redis_ready R r x c rate" and na: "not_ahead (redis_now R r) (stored R (redis_key r x) (rd_client r))"
    using inv by (simp_all add: redis_inv_def)
  have lims: "limits_ok (Fin c) (Fin rate)" and st: "stored_ok c (stored R (redis_key r x) (rd_client r))"
    and clk: "clock_ok R (rd_client r)" using rdy by (simp_all add: redis_ready_def)
  have c1: "0 \<le> c / 2 ^ 52" using lims by simp
  have "redis_inv R r' x c rate \<and> redis_now R r' = redis_now R r \<and> redis_key r' x = redis_key r x \<and>
    of_int (if ok then max n 0 else 0) + redis_credit R r' x c rate \<le> redis_credit R r x c rate + c / 2 ^ 52"
  proof (cases "0 < n")
    case False
    then have "r' = r" using step by (simp add: RedisLimiter_AllowN_def)
    then show ?thesis using inv False c1 by simp
  next
    case True
    define a where "a = redis_available R r x c rate"
    have a: "0 \<le> a" "a \<le> c" "rnd a = a" "a \<le> redis_credit R r x c rate + c / 2 ^ 52"
      using available_bounds [OF st lims] available_credit [OF st lims] na
      by (simp_all add: a_def redis_available_def redis_credit_def redis_now_def)
    define ok' where "ok' = (of_int n \<le> a)"
    obtain s' where s': "RedisLimiter_AllowN R x n r = (case FAULT R (rd_client r) of
          Some (executed, err) \<Rightarrow> (if executed then r\<lparr>rd_client := s'\<rparr> else r,
            Ret (False, Some (WrapError ''execute rate limit check'' err)))
        | None \<Rightarrow> (r\<lparr>rd_client := s'\<rparr>, Ret (ok', None)))"
      "stored R (redis_key r x) s' = (Some (Fin (a - (if ok' then of_int n else 0))),
         Some (Fin (of_int (redis_now R r))))"
      "TIME R s' = TIME R (rd_client r)"
      "\<And>k' f. f \<noteq> ''tokens'' \<Longrightarrow> f \<noteq> ''lastRefill'' \<Longrightarrow> HGET R s' k' f = HGET R (rd_client r) k' f"
      by (rule redis_AllowN_exact [OF R rdy True n ok'_def [unfolded a_def]])
        (rule that [unfolded a_def redis_now_def])
    have time: "server_time R s' = redis_now R r" "clock_ok R s'"
      using s'(3) clk by (simp_all add: server_time_def redis_now_def clock_ok_def)
    have l: "0 \<le> redis_now R r" "redis_now R r \<le> 2 ^ 51"
      using server_time_bounds [OF clk] by (simp_all add: redis_now_def)
    have lv: "rnd (a - (if ok' then of_int n else 0)) = a - (if ok' then of_int n else 0)"
      "0 \<le> a - (if ok' then of_int n else 0)" "a - (if ok' then of_int n else 0) \<le> c"
      using a True lims rnd_sub_int_exact [OF a(3)] by (auto simp: ok'_def)
    have new: "redis_inv R (r\<lparr>rd_client := s'\<rparr>) x c rate"
      using rdy lv l time redis_limits_cong [of R s' "redis_key r x" "rd_client r"] s'(4)
      by (simp add: redis_inv_def redis_ready_def redis_now_def redis_key_def s'(2) [unfolded redis_key_def redis_now_def])
    have cr: "redis_credit R (r\<lparr>rd_client := s'\<rparr>) x c rate = a - (if ok' then of_int n else 0)"
      using time s'(2) by (simp add: redis_credit_def redis_key_def)
    have "r' = r \<and> \<not> ok \<or> r' = r\<lparr>rd_client := s'\<rparr> \<and> (ok \<longrightarrow> ok')"
      using step s'(1) by (auto split: option.splits)
    then show ?thesis
      using inv new time a(4) cr True lv c1
      by (auto simp: redis_now_def redis_key_def split: if_splits)
  qed
  then show "redis_inv R r' x c rate" "redis_now R r' = redis_now R r" "redis_key r' x = redis_key r x"
    "of_int (if ok then max n 0 else 0) + redis_credit R r' x c rate \<le> redis_credit R r x c rate + c / 2 ^ 52"
    by blast+
qed

text \<open>What happens between calls adds no more than the rate yields.\<close>

lemma redis_elapse_step:
  assumes inv: "redis_inv R r x c rate"
    and step: "server_step R (redis_key r x) c rate (rd_client r) s'"
  shows "redis_inv R (r\<lparr>rd_client := s'\<rparr>) x c rate" "redis_now R r \<le> redis_now R (r\<lparr>rd_client := s'\<rparr>)"
    "redis_credit R (r\<lparr>rd_client := s'\<rparr>) x c rate
       \<le> redis_credit R r x c rate + ms_gain rate (redis_now R r) (redis_now R (r\<lparr>rd_client := s'\<rparr>))"
proof -
  define k st where "k = redis_key r x" and "st = stored R k (rd_client r)"
  have key: "redis_key (r\<lparr>rd_client := s'\<rparr>) x = k" by (simp add: redis_key_def k_def)
  have q: "limits_ok (Fin c) (Fin rate)" "stored_ok c st" "not_ahead (redis_now R r) st"
    using inv by (simp_all add: redis_inv_def redis_ready_def st_def k_def)
  have t: "redis_now R r \<le> server_time R s'" "clock_ok R s'"
    using step by (simp_all add: server_step_def redis_now_def)
  have lims: "lua_limits R k dc dr s' = lua_limits R k dc dr (rd_client r)" for dc dr
    using step by (intro redis_limits_cong) (simp_all add: server_step_def k_def)
  have s': "stored R k s' = st \<or> stored R k s' = (None, None) \<and> key_expired c rate (server_time R s') st"
    using step by (simp add: server_step_def k_def st_def)
  have ahead: "not_ahead (server_time R s') st"
    using q(2,3) t(1) by (elim stored_ok_cases) simp_all
  show "redis_inv R (r\<lparr>rd_client := s'\<rparr>) x c rate"
    using inv s' q(1,2) t lims ahead
    by (auto simp: redis_inv_def redis_ready_def key redis_now_def simp flip: k_def)
  show "redis_now R r \<le> redis_now R (r\<lparr>rd_client := s'\<rparr>)" using t by (simp add: redis_now_def)
  have "credit c rate (server_time R s') (stored R k s') \<le> credit c rate (server_time R s') st"
    using s' expired_credit [OF q(2,1)] by auto
  also have "\<dots> \<le> credit c rate (redis_now R r) st + ms_gain rate (redis_now R r) (server_time R s')"
    using q(1,2) t(1) by (intro credit_later)
  finally show "redis_credit R (r\<lparr>rd_client := s'\<rparr>) x c rate
       \<le> redis_credit R r x c rate + ms_gain rate (redis_now R r) (redis_now R (r\<lparr>rd_client := s'\<rparr>))"
    by (simp add: redis_credit_def redis_now_def key st_def flip: k_def)
qed

lemma redis_run_bound:
  assumes "redis_run R x c rate r0 granted calls r" "redis_laws R" "redis_inv R r0 x c rate"
  shows "redis_inv R r x c rate \<and> redis_now R r0 \<le> redis_now R r
    \<and> of_int granted + redis_credit R r x c rate
        \<le> redis_credit R r0 x c rate + ms_gain rate (redis_now R r0) (redis_now R r) + of_nat calls * (c / 2 ^ 52)"
  using assms(1)
proof (induction rule: redis_run.induct)
  case start
  then show ?case using assms(3) by simp
next
  case (call granted calls r n r' ok err)
  note st = redis_call_step [OF assms(2) conjunct1 [OF call.IH] call.hyps(2,3)]
  have "(of_nat (Suc calls) :: rat) * (c / 2 ^ 52) = c / 2 ^ 52 + of_nat calls * (c / 2 ^ 52)"
    by (simp add: field_simps)
  moreover have "(of_int (granted + (if ok then max n 0 else 0)) :: rat)
      = of_int granted + of_int (if ok then max n 0 else 0)" by simp
  ultimately show ?case using st(1,2,4) call.IH by (simp only: simp_thms) linarith
next
  case (elapse granted calls r s')
  note st = redis_elapse_step [OF conjunct1 [OF elapse.IH] elapse.hyps(2)]
  show ?case
    using st elapse.IH ms_gain_trans [of rate "redis_now R r0" "redis_now R r" "redis_now R (r\<lparr>rd_client := s'\<rparr>)"]
    by simp
qed

section \<open>Properties\<close>

definition demo_redis :: "table_server redis_limiter" where
  "demo_redis = \<lparr>rd_client = \<lparr>tbl_time = (100, 0), hashes = (\<lambda>k. Map.empty), deadlines = Map.empty\<rparr>,
     rd_config = \<lparr>TokensPerSecond = Fin 2, BurstSize = 4, CleanupInterval = 0\<rparr>, keyPrefix = ''r:''\<rparr>"

definition demo_redis_at :: "int \<Rightarrow> rat \<Rightarrow> int \<Rightarrow> table_server redis_limiter" where
  "demo_redis_at t l u = demo_redis\<lparr>rd_client := \<lparr>tbl_time = (t, 0),
     hashes = (\<lambda>k. Map.empty)(''r:a'' := [''lastRefill'' \<mapsto> Fin (of_int u * 1000), ''tokens'' \<mapsto> Fin l]),
     deadlines = [''r:a'' \<mapsto> u * 1000 + 5000]\<rparr>\<rparr>"

lemma demo_redis_ready: "redis_ready table_redis demo_redis ''a'' 4 2"
  "stored table_redis (redis_key demo_redis ''a'') (rd_client demo_redis) = (None, None)"
  "FAULT table_redis (rd_client demo_redis) = None"
  using rnd_of_int [of 4] rnd_of_int [of 2]
  by (simp_all add: redis_ready_def demo_redis_def table_redis_def lua_limits_def stored_def clock_ok_def
      f64_simps live_def redis_key_def)

lemmas redis_eval = RedisLimiter_AllowN_def tokenBucketScript_def demo_redis_def table_redis_def redis_key_def
  lua_limits_def lua_now_def lua_refill_def lua_ttl_def lua_write_def f64_simps live_def tbl_hmset_def tbl_ms_def
  Let_def demo_redis_at_def f64_sub_def rat_trunc_def int64_def

lemma demo_calls:
  "RedisLimiter_AllowN table_redis ''a'' 2 demo_redis = (demo_redis_at 100 2 100, Ret (True, None))"
  "RedisLimiter_AllowN table_redis ''a'' 3 (demo_redis_at 100 2 100) = (demo_redis_at 100 2 100, Ret (False, None))"
  "RedisLimiter_AllowN table_redis ''a'' 3 (demo_redis_at 101 2 100) = (demo_redis_at 101 1 101, Ret (True, None))"
  by (simp_all add: redis_eval)



text \<open>
  C39. What a call does: with the available level \<open>L\<close> the scripts compute, \<open>AllowN(n)\<close> grants
  if and only if \<open>n <= L\<close>, stores \<open>L - n\<close> or \<open>L\<close> and the server time, and \<open>Tokens\<close> in the
  same state reports the whole part of \<open>L\<close> without changing anything. A client without
  stored state has its full capacity, and a call that takes nothing is granted without
  asking the server.
\<close>

theorem redis_allow_exact:
  assumes "redis_laws R" "redis_ready R r x c rate" "FAULT R (rd_client r) = None" "0 < n" "int64 n"
  shows "(\<exists>s'. RedisLimiter_AllowN R x n r
          = (r\<lparr>rd_client := s'\<rparr>, Ret (of_int n \<le> redis_available R r x c rate, None))
        \<and> stored R (redis_key r x) s' = (Some (Fin (redis_available R r x c rate
              - (if of_int n \<le> redis_available R r x c rate then of_int n else 0))),
            Some (Fin (of_int (server_time R (rd_client r))))))
    \<and> RedisLimiter_Tokens R clk x r = (r, Ret (\<lfloor>redis_available R r x c rate\<rfloor>, None))
    \<and> 0 \<le> redis_available R r x c rate \<and> redis_available R r x c rate \<le> c
    \<and> (fst (stored R (redis_key r x) (rd_client r)) = None \<longrightarrow> redis_available R r x c rate = c)
    \<and> RedisLimiter_AllowN R x 0 r = (r, Ret (True, None))"
proof -
  obtain s' where "RedisLimiter_AllowN R x n r
          = (r\<lparr>rd_client := s'\<rparr>, Ret (of_int n \<le> redis_available R r x c rate, None))"
      "stored R (redis_key r x) s' = (Some (Fin (redis_available R r x c rate
              - (if of_int n \<le> redis_available R r x c rate then of_int n else 0))),
            Some (Fin (of_int (server_time R (rd_client r)))))"
    by (rule redis_AllowN_exact [OF assms(1,2,4,5) refl], rule that) (simp_all add: assms(3))
  moreover have "0 \<le> redis_available R r x c rate" "redis_available R r x c rate \<le> c"
    using available_bounds assms(2) by (simp_all add: redis_ready_def redis_available_def)
  moreover have "fst st = None \<Longrightarrow> available c rate now st = c" for now st by (cases st) auto
  then have "fst (stored R (redis_key r x) (rd_client r)) = None \<longrightarrow> redis_available R r x c rate = c"
    by (simp add: redis_available_def)
  moreover have "RedisLimiter_AllowN R x 0 r = (r, Ret (True, None))" by (simp add: RedisLimiter_AllowN_def)
  ultimately show ?thesis using redis_Tokens_exact [OF assms(2,3)] by blast
qed

theorem redis_allow_exact_witness:
  "\<exists>s'. RedisLimiter_AllowN table_redis ''a'' 3 demo_redis = (demo_redis\<lparr>rd_client := s'\<rparr>, Ret (True, None))
     \<and> stored table_redis (redis_key demo_redis ''a'') s' = (Some (Fin 1), Some (Fin 100000))
     \<and> RedisLimiter_Tokens table_redis (\<lambda>_. 0) ''a'' demo_redis = (demo_redis, Ret (4, None))"
proof -
  have "redis_available table_redis demo_redis ''a'' 4 2 = 4"
    by (simp add: redis_available_def demo_redis_ready(2))
  moreover have "server_time table_redis (rd_client demo_redis) = 100000"
    by (simp add: server_time_def table_redis_def demo_redis_def)
  ultimately show ?thesis
    using redis_allow_exact [OF table_redis_laws demo_redis_ready(1,3), of 3 "\<lambda>_. 0"] by (simp add: int64_def)
qed

text \<open>
  C40. Clients do not disturb each other on the server, with one exception: an operation for
  client \<open>c\<close> leaves the bucket and the limits of client \<open>d\<close> alone when neither
  identifier is the other followed by \<open>:cfg\<close>. In the excepted case the keys collide: a reset
  of the client \<open>d:cfg\<close> deletes the limits set for \<open>d\<close>, which falls back to the default.
\<close>

theorem redis_isolation:
  assumes "redis_laws R"
  shows "(redis_indep c d \<longrightarrow>
      redis_view R (fst (RedisLimiter_Allow R clk c r)) d = redis_view R r d
      \<and> redis_view R (fst (RedisLimiter_Tokens R clk c r)) d = redis_view R r d
      \<and> redis_view R (fst (RedisLimiter_Reset R clk c r)) d = redis_view R r d
      \<and> (int64 b \<longrightarrow> f64_rep x \<longrightarrow> x \<noteq> NaN \<longrightarrow> x \<noteq> PInf \<longrightarrow>
           redis_view R (fst (RedisLimiter_SetLimit R clk c b x r)) d = redis_view R r d))
    \<and> (FAULT R (rd_client r) = None \<longrightarrow>
      lua_limits R (redis_key r d) dc dr (rd_client (fst (RedisLimiter_Reset R clk (d @ '':cfg'') r))) = (dc, dr))"
proof -
  note lim = redis_limiter_locale [OF assms]
  note l = limiter.allow_other [OF lim] limiter.tokens_other [OF lim] limiter.reset_other [OF lim]
    limiter.set_limit_other [OF lim]
  have "lua_limits R (redis_key r d) dc dr (rd_client (fst (RedisLimiter_Reset R clk (d @ '':cfg'') r))) = (dc, dr)"
    if "FAULT R (rd_client r) = None"
    using that by (simp add: RedisLimiter_Reset_def redis_command_def lua_limits_def redis_lawsD(5) [OF assms] redis_key_def)
  then show ?thesis
    using l by (simp add: redis_limiter_ops_def)
qed

theorem redis_isolation_witness:
  "redis_view table_redis (fst (RedisLimiter_Allow table_redis (\<lambda>_. 0) ''a'' demo_redis)) ''b''
      = redis_view table_redis demo_redis ''b''
   \<and> lua_limits table_redis ''r:b'' (Fin 4) (Fin 2)
       (rd_client (fst (RedisLimiter_SetLimit table_redis (\<lambda>_. 0) ''b'' 9 (Fin 9) demo_redis))) = (Fin 9, Fin 9)
   \<and> lua_limits table_redis ''r:b'' (Fin 4) (Fin 2) (rd_client (fst (RedisLimiter_Reset table_redis (\<lambda>_. 0) (''b'' @ '':cfg'')
       (fst (RedisLimiter_SetLimit table_redis (\<lambda>_. 0) ''b'' 9 (Fin 9) demo_redis))))) = (Fin 4, Fin 2)"
proof -
  define r where "r = fst (RedisLimiter_SetLimit table_redis (\<lambda>_. 0) ''b'' 9 (Fin 9) demo_redis)"
  have r: "r = demo_redis\<lparr>rd_client := tbl_hmset ''r:b:cfg'' [(''burst'', Fin 9), (''rps'', Fin 9)] (rd_client demo_redis)\<rparr>"
    by (simp add: r_def RedisLimiter_SetLimit_def redis_command_def table_redis_def redis_key_def demo_redis_def f64_simps)
  have "FAULT table_redis (rd_client r) = None" "redis_key r ''b'' = ''r:b''"
    by (simp_all add: r table_redis_def redis_key_def demo_redis_def)
  moreover have "lua_limits table_redis ''r:b'' (Fin 4) (Fin 2) (rd_client r) = (Fin 9, Fin 9)"
    by (simp add: r lua_limits_def table_redis_def live_def tbl_hmset_def demo_redis_def tbl_drop_def)
  moreover have "redis_indep ''a'' ''b''" by (simp add: redis_indep_def)
  ultimately show ?thesis
    using redis_isolation [OF table_redis_laws, of "''a''" "''b''" "\<lambda>_. 0" demo_redis]
      redis_isolation [OF table_redis_laws, of "''a''" "''b''" "\<lambda>_. 0" r 0 "Fin 0" "Fin 4" "Fin 2"]
    by (simp flip: r_def)
qed

end
