(* ===== verification/Gateway_Redis.thy ===== *)
theory Gateway_Redis
  imports Gateway_Admission Redis_Admission
begin

text \<open>
  The limit end to end with the Redis backend. The middleware fails open: a request for which
  the backend reports an error is forwarded. So what is forwarded is bounded by the capacity,
  the refill over the time of the server, and the number of failures in the log. A run is made
  of whole requests, each of which changes its bucket in one script, and of what happens on
  the server in between, other gateways that serve other clients included.
\<close>

section \<open>Runs\<close>

inductive gateway_redis_run :: "'r redis_ops \<Rightarrow> ('r redis_limiter, 's, 'm) rate_limit_config \<Rightarrow> string \<Rightarrow> rat \<Rightarrow> rat
    \<Rightarrow> ('r redis_limiter, 's, int, 'm) gateway \<Rightarrow> nat \<Rightarrow> ('r redis_limiter, 's, int, 'm) gateway \<Rightarrow> bool"
  for R cfg x c rate g0 where
  start: "gateway_redis_run R cfg x c rate g0 0 g0"
| own: "gateway_redis_run R cfg x c rate g0 calls g \<Longrightarrow> resolveClientID q = x \<Longrightarrow> default_limited cfg q \<Longrightarrow>
    gateway_redis_run R cfg x c rate g0 (Suc calls) (fst (RateLimitMiddleware cfg (count_forwarded x) clk q g))"
| other: "gateway_redis_run R cfg x c rate g0 calls g \<Longrightarrow> redis_indep (resolveClientID q) x \<Longrightarrow>
    gateway_redis_run R cfg x c rate g0 calls (fst (RateLimitMiddleware cfg (count_forwarded x) clk q g))"
| elapse: "gateway_redis_run R cfg x c rate g0 calls g \<Longrightarrow>
    server_step R (redis_key (gw_limiter g) x) c rate (rd_client (gw_limiter g)) s' \<Longrightarrow>
    gateway_redis_run R cfg x c rate g0 calls (g\<lparr>gw_limiter := (gw_limiter g)\<lparr>rd_client := s'\<rparr>\<rparr>)"

section \<open>The log of failures\<close>

fun is_limiter_failure :: "log_entry \<Rightarrow> bool" where
  "is_limiter_failure (LimiterFailure c err) = True"
| "is_limiter_failure e = False"

definition failures_logged :: "('l, 's, 'u, 'm) gateway \<Rightarrow> nat" where
  "failures_logged g = length (filter is_limiter_failure (gw_log g))"

lemma failures_logged_simps [simp]:
  "failures_logged (g\<lparr>gw_limiter := l\<rparr>) = failures_logged g" "failures_logged (g\<lparr>gw_storage := st\<rparr>) = failures_logged g"
  "failures_logged (g\<lparr>gw_metrics := m\<rparr>) = failures_logged g" "failures_logged (g\<lparr>gw_upstream := u\<rparr>) = failures_logged g"
  "failures_logged (log_add e g) = failures_logged g + (if is_limiter_failure e then 1 else 0)"
  by (simp_all add: failures_logged_def log_add_def)

lemma count_forwarded_log [simp]: "failures_logged (fst (count_forwarded x clk q g)) = failures_logged g"
  by (simp add: count_forwarded_def)

lemma resolve_failures:
  "resolveClientLimit cfg clk k g = (g', n) \<Longrightarrow> failures_logged g' = failures_logged g"
  by (auto simp: resolveClientLimit_def Let_def split: option.splits prod.splits if_splits)

lemma RateLimit_failures:
  "failures_logged g \<le> failures_logged (fst (RateLimitMiddleware cfg (count_forwarded x) clk q g))"
proof -
  let ?c = "resolveClientID q"
  obtain g1 n where lim: "resolveClientLimit cfg clk (header_get (req_header q) APIKeyHeader) g = (g1, n)" by force
  obtain g2 res where sy: "syncLimitIfNeeded (Limiter cfg) (from_reading 8 clk) ?c n (DefaultLimit cfg) g1 = (g2, res)" by force
  have "failures_logged g2 = failures_logged g"
    using syncLimitIfNeeded_frame [OF sy] resolve_failures [OF lim] by (simp add: failures_logged_def)
  then show ?thesis
    by (cases res) (auto simp: RateLimitMiddleware_def Let_def lim sy case_prod_beta split: option.split outcome.split)
qed

section \<open>One request\<close>

lemma redis_AllowN_returns: "\<exists>l ok err. RedisLimiter_AllowN R x n r = (l, Ret (ok, err))"
  by (auto simp: RedisLimiter_AllowN_def Let_def split: prod.split option.split sum.split)

lemma redis_Tokens_returns: "\<exists>k err. RedisLimiter_Tokens R clk x r = (r, Ret (k, err))"
  by (auto simp: RedisLimiter_Tokens_def split: option.split sum.split)

lemma redis_own_request:
  fixes cfg :: "('r redis_limiter, 's, 'm) rate_limit_config" and clk :: clock
  assumes "Limiter cfg = redis_limiter_ops R" "default_limited cfg q" "resolveClientID q = x"
    and "RedisLimiter_AllowN R x 1 (gw_limiter g) = (l, Ret (ok, err))"
  defines "g' \<equiv> fst (RateLimitMiddleware cfg (count_forwarded x) clk q g)"
  shows "gw_limiter g' = l" "gw_storage g' = gw_storage g"
    "gw_upstream g' + int (failures_logged g) \<le> gw_upstream g + (if ok then 1 else 0) + int (failures_logged g')"
proof -
  have lim: "resolveClientLimit cfg clk (header_get (req_header q) APIKeyHeader) g = (g, DefaultLimit cfg)"
    using assms(2) by (auto simp: resolveClientLimit_def default_limited_def split: option.split)
  obtain k tk_err where tk: "RedisLimiter_Tokens R (from_reading 24 clk) x l = (l, Ret (k, tk_err))"
    using redis_Tokens_returns by blast
  have "gw_limiter g' = l \<and> gw_storage g' = gw_storage g \<and>
    gw_upstream g' + int (failures_logged g) \<le> gw_upstream g + (if ok then 1 else 0) + int (failures_logged g')"
    by (cases err) (auto simp: g'_def RateLimitMiddleware_def Let_def assms(1,3) lim syncLimitIfNeeded_def
        redis_limiter_ops_def RedisLimiter_Allow_def assms(4) tk count_forwarded_def log_add_def failures_logged_def
        split: option.split outcome.split)
  then show "gw_limiter g' = l" "gw_storage g' = gw_storage g"
    "gw_upstream g' + int (failures_logged g) \<le> gw_upstream g + (if ok then 1 else 0) + int (failures_logged g')"
    by blast+
qed

text \<open>A request of another client is, for this client, one step of the server.\<close>

lemma redis_other_request:
  fixes cfg :: "('r redis_limiter, 's, 'm) rate_limit_config" and clk :: clock
  assumes R: "redis_laws R" and cfg: "Limiter cfg = redis_limiter_ops R" "store_keeps P cfg" and P: "P (gw_storage g)"
    and q: "redis_indep (resolveClientID q) x" and clk_ok: "clock_ok R (rd_client (gw_limiter g))"
  defines "g' \<equiv> fst (RateLimitMiddleware cfg (count_forwarded x) clk q g)"
  shows "\<exists>s'. gw_limiter g' = (gw_limiter g)\<lparr>rd_client := s'\<rparr>
      \<and> server_step R (redis_key (gw_limiter g) x) c rate (rd_client (gw_limiter g)) s'"
    "P (gw_storage g')" "gw_upstream g' = gw_upstream g"
proof -
  note n = resolve_keeps [OF cfg(2) P]
  have "redis_view R (gw_limiter g') x = redis_view R (gw_limiter g) x"
    "redis_frame R (gw_limiter g') = redis_frame R (gw_limiter g)"
    using limiter.rate_limit_other [OF redis_framed_locale [OF R] cfg(1) count_forwarded_frame(1) TrueI n(1)] q
    by (simp_all add: g'_def)
  then show "\<exists>s'. gw_limiter g' = (gw_limiter g)\<lparr>rd_client := s'\<rparr>
      \<and> server_step R (redis_key (gw_limiter g) x) c rate (rd_client (gw_limiter g)) s'"
    using clk_ok
    by (intro exI [of _ "rd_client (gw_limiter g')"])
      (simp add: redis_view_def redis_frame_def redis_key_def server_step_def clock_ok_def server_time_def)
  show "P (gw_storage g')" using n(2) by (simp add: g'_def RateLimit_storage count_forwarded_frame)
  have "resolveClientID q \<noteq> x" using q by (simp add: redis_indep_def)
  then show "gw_upstream g' = gw_upstream g"
    unfolding g'_def by (intro RateLimit_upstream count_forwarded_frame(3))
qed

section \<open>The bound\<close>

text \<open>What was forwarded, less the failures, together with what is left to grant.\<close>

lemma gateway_redis_run_bound:
  fixes cfg :: "('r redis_limiter, 's, 'm) rate_limit_config"
  assumes run: "gateway_redis_run R cfg x c rate g0 calls g"
    and R: "redis_laws R" and cfg: "Limiter cfg = redis_limiter_ops R" "store_keeps P cfg"
    and init: "redis_inv R (gw_limiter g0) x c rate" "P (gw_storage g0)"
  shows "redis_inv R (gw_limiter g) x c rate \<and> P (gw_storage g)
    \<and> failures_logged g0 \<le> failures_logged g
    \<and> of_int (gw_upstream g - gw_upstream g0) + redis_credit R (gw_limiter g) x c rate
        \<le> redis_credit R (gw_limiter g0) x c rate
          + ms_gain rate (redis_now R (gw_limiter g0)) (redis_now R (gw_limiter g))
          + of_nat calls * (c / 2 ^ 52) + of_int (int (failures_logged g) - int (failures_logged g0))"
  using run
proof (induction rule: gateway_redis_run.induct)
  case start
  then show ?case using init by simp
next
  case (own calls g q clk)
  obtain l ok err where al: "RedisLimiter_AllowN R x 1 (gw_limiter g) = (l, Ret (ok, err))"
    using redis_AllowN_returns by blast
  have one: "int64 1" by (simp add: int64_def)
  note st = redis_call_step [OF R conjunct1 [OF own.IH] one al]
  note rq = redis_own_request [OF cfg(1) own.hyps(3,2) al, of clk]
  note log = RateLimit_failures [of g cfg x clk q]
  let ?g = "fst (RateLimitMiddleware cfg (count_forwarded x) clk q g)"
  have "gw_upstream ?g + int (failures_logged g)
      \<le> gw_upstream g + (if ok then max 1 0 else 0) + int (failures_logged ?g)"
    using rq(3) by (simp split: if_splits)
  then have "(of_int (gw_upstream ?g) + of_int (int (failures_logged g)) :: rat)
      \<le> of_int (gw_upstream g) + of_int (if ok then max 1 0 else 0) + of_int (int (failures_logged ?g))"
    by (simp only: of_int_add [symmetric] of_int_le_iff)
  moreover have "(of_nat (Suc calls) :: rat) * (c / 2 ^ 52) = c / 2 ^ 52 + of_nat calls * (c / 2 ^ 52)"
    by (simp add: field_simps)
  ultimately have "of_int (gw_upstream ?g - gw_upstream g0) + redis_credit R l x c rate
      \<le> redis_credit R (gw_limiter g0) x c rate + ms_gain rate (redis_now R (gw_limiter g0)) (redis_now R (gw_limiter g))
        + of_nat (Suc calls) * (c / 2 ^ 52) + of_int (int (failures_logged ?g) - int (failures_logged g0))"
    using st(4) own.IH by (simp only: of_int_diff simp_thms) linarith
  then show ?case using st(1,2) own.IH log rq(1,2) by simp
next
  case (other calls g q clk)
  have clk: "clock_ok R (rd_client (gw_limiter g))" using other.IH by (simp add: redis_inv_def redis_ready_def)
  note rq = redis_other_request [OF R cfg _ other.hyps(2) clk, of clk, OF conjunct1 [OF conjunct2 [OF other.IH]]]
  obtain s' where s': "gw_limiter (fst (RateLimitMiddleware cfg (count_forwarded x) clk q g)) = (gw_limiter g)\<lparr>rd_client := s'\<rparr>"
    "server_step R (redis_key (gw_limiter g) x) c rate (rd_client (gw_limiter g)) s'"
    using rq(1) by blast
  note st = redis_elapse_step [OF conjunct1 [OF other.IH] s'(2)]
  show ?case
    using st other.IH rq(2,3) RateLimit_failures [of g cfg x clk q]
      ms_gain_trans [of rate "redis_now R (gw_limiter g0)" "redis_now R (gw_limiter g)"
        "redis_now R ((gw_limiter g)\<lparr>rd_client := s'\<rparr>)"]
    by (simp add: s'(1))
next
  case (elapse calls g s')
  note st = redis_elapse_step [OF conjunct1 [OF elapse.IH] elapse.hyps(2)]
  show ?case
    using st elapse.IH ms_gain_trans [of rate "redis_now R (gw_limiter g0)" "redis_now R (gw_limiter g)"
        "redis_now R ((gw_limiter g)\<lparr>rd_client := s'\<rparr>)"]
    by simp
qed

section \<open>Properties\<close>


definition demo_redis_limited :: "(table_server redis_limiter, unit, table_metrics) rate_limit_config" where
  "demo_redis_limited = \<lparr>DefaultLimit = 2, Storage = None, Limiter = redis_limiter_ops table_redis, rlMetrics = None\<rparr>"

definition demo_redis_gateway :: "(table_server redis_limiter, unit, int, table_metrics) gateway" where
  "demo_redis_gateway = \<lparr>gw_limiter = demo_redis, gw_storage = (), gw_synced = Map.empty, gw_upstream = 0,
     gw_metrics = no_metrics, gw_log = []\<rparr>"

fun demo_requests :: "nat \<Rightarrow> (table_server redis_limiter, unit, int, table_metrics) gateway" where
  "demo_requests 0 = demo_redis_gateway"
| "demo_requests (Suc k) = fst (RateLimitMiddleware demo_redis_limited (count_forwarded ''1.2.3.4'') (\<lambda>i. 0)
     (get_request ''/x'') (demo_requests k))"

lemma demo_client: "resolveClientID (get_request ''/x'') = ''1.2.3.4''"
  by (simp add: resolveClientID_def get_request_def header_get_def SplitHostPort_def last_index_of_def)

lemma demo_requests_run:
  "gateway_redis_run table_redis demo_redis_limited ''1.2.3.4'' 4 2 demo_redis_gateway k (demo_requests k)
   \<and> redis_frame table_redis (gw_limiter (demo_requests k)) = redis_frame table_redis demo_redis"
proof (induction k)
  case 0
  then show ?case by (simp add: gateway_redis_run.start) (simp add: demo_redis_gateway_def)
next
  case (Suc k)
  have d: "default_limited demo_redis_limited q" "Limiter demo_redis_limited = redis_limiter_ops table_redis"
    "store_keeps (\<lambda>_. True) demo_redis_limited" for q
    by (simp_all add: default_limited_def demo_redis_limited_def store_keeps_def int64_def)
  have "redis_frame table_redis (gw_limiter (demo_requests (Suc k))) = redis_frame table_redis (gw_limiter (demo_requests k))"
    using limiter.rate_limit_other [OF redis_framed_locale [OF table_redis_laws] d(2)
          count_forwarded_frame(1) [of "''1.2.3.4''"] TrueI resolve_keeps(1) [OF d(3) TrueI],
        where r = "get_request ''/x''" and clk = "\<lambda>i. 0" and g = "demo_requests k" and d = "''other''"]
    by (simp add: demo_client redis_indep_def)
  then show ?case
    using Suc gateway_redis_run.own [OF conjunct1 [OF Suc.IH] demo_client d(1), of "\<lambda>i. 0"] by simp
qed


end
