(* ===== verification/Spec2Isabelle.thy ===== *)
theory Spec2Isabelle
  imports Gateway_Redis
begin

text \<open>
  \<^bold>\<open>A verification development of the API gateway and rate limiter.\<close>

  The program is an HTTP gateway in Go. It answers two probes itself, and passes every other
  request through a chain of middleware to one upstream: metrics, recovery from panics,
  logging, rate limiting per client, and a reverse proxy whose transport retries and is
  guarded by a circuit breaker. A client is limited by a token bucket, kept in memory or in
  Redis; its limit comes from Postgres through a cache. All Go code under \<open>cmd\<close> and
  \<open>internal\<close> is modelled.

  \<^bold>\<open>Theories and the code they model\<close>

  \<^item> \<^theory_text>\<open>Gateway_Prelude\<close>: outcomes that may be a panic, 64-bit wrap-around, clock readings
    and durations, Go errors with \<open>errors.Is\<close>; the collections \<open>f64_simps\<close>, \<open>frame_simps\<close>,
    \<open>inv_intros\<close>.
  \<^item> \<^theory_text>\<open>Float64\<close>: \<open>float64\<close> as rationals rounded to nearest even, with infinities and NaN;
    the locale \<open>rounding\<close> with its interpretation on \<open>rnd\<close>; \<open>Duration.Seconds\<close>.
  \<^item> \<^theory_text>\<open>Go_Strings\<close>, \<^theory_text>\<open>Http_Model\<close>, \<^theory_text>\<open>Response_Writer\<close>: what the code uses of \<open>strconv\<close>,
    \<open>strings\<close>, UTF-8, headers, requests and responses; a response as the list of actions
    on the writer and the wire they give; JSON.
  \<^item> \<^theory_text>\<open>Token_Bucket\<close>: \<open>internal/limiter/token_bucket.go\<close>.
  \<^item> \<^theory_text>\<open>Limiter_Interface\<close>: the interface of \<open>internal/ratelimit/ratelimit.go\<close>, as a record of
    operations and as the locale \<open>limiter\<close>.
  \<^item> \<^theory_text>\<open>Memory_Limiter\<close>: \<open>internal/ratelimit/memory_limiter.go\<close>, with an explicit heap, since
    \<open>getOrCreateBucket\<close> hands out pointers to buckets that \<open>SetLimit\<close>, \<open>Reset\<close> and the
    cleanup replace.
  \<^item> \<^theory_text>\<open>Redis_Limiter\<close>: \<open>internal/ratelimit/redis_limiter.go\<close> with both Lua scripts;
    \<^theory_text>\<open>Redis_Bucket\<close>: the arithmetic of the scripts; \<^theory_text>\<open>Redis_Table\<close>: a concrete server, the
    interpretation of \<open>limiter\<close>, and what a call returns and stores; \<^theory_text>\<open>Redis_Admission\<close>: runs.
  \<^item> \<^theory_text>\<open>Circuit_Breaker\<close> and \<^theory_text>\<open>Resilient_Transport\<close>: \<open>internal/handler/circuit_breaker.go\<close>;
    the locale \<open>breaker\<close> is the contract between them.
  \<^item> \<^theory_text>\<open>Client_Storage\<close>: \<open>internal/storage/postgres.go\<close> and \<open>l1_cached_storage.go\<close>; the locale
    \<open>client_store\<close> is the interface \<open>ClientStore\<close>, which both of them provide.
  \<^item> \<^theory_text>\<open>Metrics\<close>: \<open>internal/metrics/metrics.go\<close>. \<^theory_text>\<open>Middleware\<close>: \<open>internal/handler/middleware.go\<close>.
    \<^theory_text>\<open>Proxy\<close>: \<open>internal/handler/proxy.go\<close>. \<^theory_text>\<open>Config\<close>: \<open>internal/config/config.go\<close>.
  \<^item> \<^theory_text>\<open>Gateway_Main\<close>: \<open>cmd/api-gateway/main.go\<close>. \<^theory_text>\<open>Gateway_Properties\<close>: properties of the parts as
    \<open>main.go\<close> puts them together. \<^theory_text>\<open>Gateway_Admission\<close> and \<^theory_text>\<open>Gateway_Redis\<close>: the limit end
    to end with either backend.

  \<^bold>\<open>How the model is built\<close>

  A struct is a record with the code's fields, a method a function from the state (and the
  clock readings it makes) to the result and the new state. Methods that hold one mutex
  throughout are one step. Where the code lets go of a lock in between, the theory has a step
  relation as well: requests in flight in the cache (\<open>cache_step\<close>), concurrent requests that
  share a breaker (\<open>cb_step\<close>), runs of calls, faults and expiry on Redis (\<open>redis_run\<close>,
  \<open>gateway_redis_run\<close>). The
  interleavings of calls on the in-memory limiter are lists of calls of several clients, and
  those of requests through the middleware are sequences of requests. A handler is a function
  from clock readings, request and the shared state \<open>gateway\<close> to the new state, the actions
  on the response, and the outcome, which may be a panic; a middleware is a function on
  handlers. The cleanup goroutines are functions of the events they receive.

  Integers of Go are \<open>int\<close> with \<open>wrap64\<close> where the arithmetic can leave 64 bits. The loop of
  the transport counts down its attempts; the functions over runes recurse on a
  shorter string. No function needs fuel.

  \<^bold>\<open>What is shown\<close>

  \<^item> The limit: a bucket grants at most what it held plus rate times time, with an explicit
    bound on the float64 error (\<^theory_text>\<open>Token_Bucket\<close>); so does the in-memory limiter for each
    client in any interleaving (\<^theory_text>\<open>Memory_Limiter\<close>), the Redis backend over runs with faults
    and expiry (\<^theory_text>\<open>Redis_Admission\<close>), and the middleware for what reaches the handler behind
    it (\<^theory_text>\<open>Gateway_Admission\<close>, and \<^theory_text>\<open>Gateway_Redis\<close>, where it is open to what a failing Redis
    lets through, as many requests as failures are logged). A client that waits is served.
  \<^item> Refinement: the pointer-based limiter implements one bucket per client; the breaker
    implements a three-state automaton.
  \<^item> Isolation of clients, for either backend, through the whole chain.
  \<^item> The transport: attempts, waits, rewound and closed bodies, what the breaker is told; a
    probe that ends without a result leaves the breaker half-open for ever.
  \<^item> The cache: staleness bounded by the lifetime under any interleaving.
  \<^item> Responses: refused requests, failing limiters, panics, proxy errors, forwarding headers,
    counting, logging, paths in labels.
  \<^item> The process: valid configurations, routes, choice of the backend, health check, start
    and end.

  \<^bold>\<open>Parameters and what is assumed of them\<close>

  Code outside the repository is a parameter; each assumption is a named definition and is
  shown to hold for a concrete instance.

  \<^item> Redis, \<open>redis_ops\<close>: \<open>redis_laws\<close> says what its commands do to hash fields (\<open>table_redis\<close>).
    A field is read back as the number that was written, which holds for the 17 digits that
    Redis prints.
  \<^item> The database driver, \<open>sql_driver\<close>: \<open>clients_table\<close> (it executes the statements) and
    \<open>driver_int64\<close> (a scanned \<open>int\<close> fits).
  \<^item> The Prometheus client, \<open>prom_ops\<close>: \<open>prom_laws\<close> (\<open>table_prom\<close>).
  \<^item> The base transport, the ends of waits and bodies: \<open>rt_env\<close> and \<open>proxy_up\<close>, arbitrary.
  \<^item> URL parsing and printing, random bytes, the page of metrics: fields of \<open>services\<close>,
    arbitrary.

  \<^bold>\<open>Bounds\<close>

  The admission bounds hold for capacities below \<open>2 ^ 53\<close> in memory and up to \<open>2 ^ 50\<close> in Redis,
  below which whole numbers of tokens are exact in float64. On Redis the server's clock must
  not step back, because the script stores an earlier time when it does. The bounds over runs
  in memory contain no eviction: an evicted client starts again with a full bucket, which is
  a property of its own. In \<^theory_text>\<open>Gateway_Admission\<close> and \<^theory_text>\<open>Gateway_Redis\<close> the client whose
  requests are counted is judged by the default limit.

  \<^bold>\<open>Not modelled\<close>

  \<^item> The sockets and the parser of \<open>net/http\<close>: connections, timeouts of the server, the body
    of an answer to \<open>HEAD\<close> being dropped, the request target \<open>*\<close>.
  \<^item> Paths with an escaped form of their own (\<open>RawPath\<close>), and the copying of data after a
    protocol switch: with the response writers of this program a switch always fails.
  \<^item> The messages logged while starting and stopping, the format of the log, the package
    \<open>flag\<close>, Go's signal handling.
  \<^item> The insides of Redis, Postgres, the Prometheus client and the random source.
  \<^item> Deployment files, SQL migrations, load tests, dashboards and the Go tests: no code of
    the program.
\<close>

end
